theory Spec2Isabelle
  imports Main "HOL-Library.Word" "HOL-Library.Multiset"
begin

section \<open>Data model\<close>

text \<open>
  Go's \<^verbatim>\<open>int32\<close> is a signed 32-bit word: \<open>+\<close> and \<open>-\<close> wrap around, and a comparison
  of the source is a comparison of the signed values (\<open>sint\<close>).  Go's \<^verbatim>\<open>int\<close> is the
  signed 64-bit word of the 64-bit targets the services are built for.  A \<^verbatim>\<open>float64\<close> is
  a value of an arbitrary type \<open>'p\<close> that has a zero, an addition and a multiplication
  and no law about them, so nothing proved below depends on how floating point rounds.
\<close>

type_synonym int32 = "32 word"
type_synonym go_int = "64 word"
type_synonym time = nat

text \<open>
  \<^verbatim>\<open>internal/productservice/model/product.go\<close>: a row of the \<^verbatim>\<open>products\<close> table.
  The table is a map from the primary key \<^verbatim>\<open>id\<close> to the other columns.

  The schema (\<^verbatim>\<open>db/init.sql\<close>, which follows \<^verbatim>\<open>cmd/userservice/main.go\<close> in its file:
  \<^verbatim>\<open>CREATE TABLE products\<close>, \<^verbatim>\<open>id UUID PRIMARY KEY\<close>) gives the column
  \<^verbatim>\<open>id\<close> the type \<^verbatim>\<open>UUID\<close>, so a key of the table is a UUID in the text the database
  prints for it.  A statement \<^verbatim>\<open>WHERE id = $1\<close> reads its text parameter as a UUID:
  \<open>uuid_in\<close> is that reading, \<open>None\<close> for a text that is no UUID (the statement then
  fails) and otherwise the key the text stands for, which another spelling of the same
  UUID stands for as well.  Nothing is assumed of it.
\<close>

type_synonym uuid_in = "string \<Rightarrow> string option"

record 'p ProductRow =
  Name :: string
  Description :: string
  Price :: 'p
  StockQuantity :: int32
  CreatedAt :: time
  UpdatedAt :: time

type_synonym 'p products = "string \<rightharpoonup> 'p ProductRow"

text \<open>The product as a query scans it and as the product service answers it
  (\<^verbatim>\<open>model.Product\<close>, \<^verbatim>\<open>productpb.Product\<close>): the \<^verbatim>\<open>id\<close> of the row found, which is
  its key in the table and not the text the caller sent, and the columns the order
  service reads.\<close>

record 'p Product =
  Id :: string
  ProductPrice :: 'p
  ProductStock :: int32
  ProductUpdatedAt :: time

definition scan :: "string \<Rightarrow> 'p ProductRow \<Rightarrow> 'p Product" where
  "scan key row =
     \<lparr>Id = key, ProductPrice = Price row, ProductStock = StockQuantity row,
      ProductUpdatedAt = UpdatedAt row\<rparr>"

section \<open>The product repository: \<^verbatim>\<open>UpdateStock\<close>\<close>

text \<open>The statements of a transaction that the database can fail.\<close>

datatype db_step = BeginTx | QueryRow | ExecStmt | CommitTx

datatype product_error =
    ErrProductNotFound
  | ErrInsufficientStock
  | ErrInvalidProductData
  | ErrDatabase db_step

text \<open>
  \<^verbatim>\<open>ProductRepository.UpdateStock\<close> (\<^verbatim>\<open>product_repository.go\<close>, lines 150 to 191).  \<open>fault\<close>
  is the statement the database fails, if any (a failed \<^verbatim>\<open>QueryRow\<close> is an error other
  than \<^verbatim>\<open>sql.ErrNoRows\<close>, as is the one for a \<open>productID\<close> that is no UUID); \<open>now\<close> is
  what \<^verbatim>\<open>time.Now()\<close> reads.  Every return before the commit runs the deferred
  \<^verbatim>\<open>tx.Rollback()\<close>, so the table is the one the call started with.
\<close>

definition UpdateStock ::
  "uuid_in \<Rightarrow> db_step option \<Rightarrow> time \<Rightarrow> 'p products \<Rightarrow> string \<Rightarrow> int32
     \<Rightarrow> (product_error + 'p Product) \<times> 'p products" where
  "UpdateStock uuid_in fault now db productID quantityChange =
     (if fault = Some BeginTx then (Inl (ErrDatabase BeginTx), db)
      else if fault = Some QueryRow then (Inl (ErrDatabase QueryRow), db)
      else case uuid_in productID of
        None \<Rightarrow> (Inl (ErrDatabase QueryRow), db)
      | Some key \<Rightarrow>
          (case db key of
             None \<Rightarrow> (Inl ErrProductNotFound, db)
           | Some currentProduct \<Rightarrow>
               let newStock = StockQuantity currentProduct + quantityChange in
               if sint newStock < 0 then (Inl ErrInsufficientStock, db)
               else
                 let updated = currentProduct\<lparr>StockQuantity := newStock, UpdatedAt := now\<rparr> in
                 if fault = Some ExecStmt then (Inl (ErrDatabase ExecStmt), db)
                 else if fault = Some CommitTx then (Inl (ErrDatabase CommitTx), db)
                 else (Inr (scan key updated), db(key \<mapsto> updated))))"

section \<open>The product service behind its gRPC client\<close>

text \<open>
  \<^verbatim>\<open>ProductRepository.GetProductByID\<close> (\<^verbatim>\<open>product_repository.go\<close>, lines 56 to 75): one
  query, which the database can fail.
\<close>

definition GetProductByID ::
  "uuid_in \<Rightarrow> db_step option \<Rightarrow> 'p products \<Rightarrow> string \<Rightarrow> product_error + 'p Product" where
  "GetProductByID uuid_in fault db productID =
     (if fault = Some QueryRow then Inl (ErrDatabase QueryRow)
      else case uuid_in productID of
        None \<Rightarrow> Inl (ErrDatabase QueryRow)
      | Some key \<Rightarrow>
          (case db key of
             None \<Rightarrow> Inl ErrProductNotFound
           | Some row \<Rightarrow> Inr (scan key row)))"

text \<open>\<^verbatim>\<open>ProductService.GetProductByID\<close> and \<^verbatim>\<open>ProductService.UpdateStock\<close>: the empty
  identifier is refused before the repository is called.\<close>

definition Service_GetProductByID ::
  "uuid_in \<Rightarrow> db_step option \<Rightarrow> 'p products \<Rightarrow> string \<Rightarrow> product_error + 'p Product" where
  "Service_GetProductByID uuid_in fault db productID =
     (if productID = [] then Inl ErrInvalidProductData
      else GetProductByID uuid_in fault db productID)"

definition Service_UpdateStock ::
  "uuid_in \<Rightarrow> db_step option \<Rightarrow> time \<Rightarrow> 'p products \<Rightarrow> string \<Rightarrow> int32
     \<Rightarrow> (product_error + 'p Product) \<times> 'p products" where
  "Service_UpdateStock uuid_in fault now db productID quantityChange =
     (if productID = [] then (Inl ErrInvalidProductData, db)
      else UpdateStock uuid_in fault now db productID quantityChange)"

text \<open>The gRPC status codes the handlers and the transport answer with, and the error
  a client call returns: a status, or an error that \<^verbatim>\<open>status.FromError\<close> does not
  recognise.\<close>

datatype code = NotFound | InvalidArgument | FailedPrecondition | Internal | Unavailable
  | DeadlineExceeded | Canceled

datatype rpc_error = StatusError code | PlainError

text \<open>\<^verbatim>\<open>ProductGRPCServer.GetProduct\<close> and \<^verbatim>\<open>ProductGRPCServer.UpdateStock\<close>
  (\<^verbatim>\<open>grpc_handler.go\<close>): how each handler maps the service's error to a status.\<close>

fun GetProduct_status :: "product_error \<Rightarrow> code" where
  "GetProduct_status ErrProductNotFound = NotFound"
| "GetProduct_status ErrInvalidProductData = InvalidArgument"
| "GetProduct_status _ = Internal"

fun UpdateStock_status :: "product_error \<Rightarrow> code" where
  "UpdateStock_status ErrProductNotFound = NotFound"
| "UpdateStock_status ErrInsufficientStock = FailedPrecondition"
| "UpdateStock_status ErrInvalidProductData = InvalidArgument"
| "UpdateStock_status _ = Internal"

section \<open>The order service\<close>

text \<open>\<^verbatim>\<open>internal/orderservice/model/order.go\<close>.  \<^verbatim>\<open>OrderStatus\<close> is a string.\<close>

record 'p OrderItem =
  ItemID :: string
  ItemOrderID :: string
  ProductID :: string
  Quantity :: int32
  PriceAtPurchase :: 'p
  ItemCreatedAt :: time

record 'p Order =
  ID :: string
  UserID :: string
  Items :: "'p OrderItem list"
  TotalAmount :: 'p
  Status :: string
  OrderCreatedAt :: time
  OrderUpdatedAt :: time

definition StatusPending :: string where
  "StatusPending = ''PENDING''"

text \<open>
  The errors of \<^verbatim>\<open>order_service.go\<close>.  An error made with \<^verbatim>\<open>fmt.Errorf("%w: ...")\<close> is
  the constructor of the sentinel it wraps, with what the message adds: the cause is
  that the service answered \<^verbatim>\<open>NotFound\<close> for the named identifier, or the client's
  error itself.  \<open>ErrInvalidQuantity\<close> wraps \<^verbatim>\<open>ErrInvalidOrderData\<close>; \<open>ErrNotAllProcessed\<close>
  is the "failed to process all items" safeguard; \<open>ErrRepository\<close> is the store's
  error, returned as it is.
\<close>

datatype cause = NotFoundCause string | RpcCause rpc_error

datatype order_error =
    ErrInvalidOrderData
  | ErrInvalidQuantity string
  | ErrUserValidationFailed cause
  | ErrProductFetchFailed cause
  | ErrInsufficientStockForOrder string int32 int32
  | ErrProductStockUpdateFailed string rpc_error
  | ErrNotAllProcessed
  | ErrRepository db_step

text \<open>\<^verbatim>\<open>errors.Is(err, ErrInvalidOrderData)\<close>.\<close>

fun is_InvalidOrderData :: "order_error \<Rightarrow> bool" where
  "is_InvalidOrderData ErrInvalidOrderData = True"
| "is_InvalidOrderData (ErrInvalidQuantity _) = True"
| "is_InvalidOrderData _ = False"

text \<open>How a client error becomes the wrapped cause (lines 62 to 66 and 102 to 107).\<close>

definition wrap_cause :: "string \<Rightarrow> rpc_error \<Rightarrow> cause" where
  "wrap_cause ident err =
     (if err = StatusError NotFound then NotFoundCause ident else RpcCause err)"

subsection \<open>\<^verbatim>\<open>ListUserOrders\<close>\<close>

text \<open>
  \<^verbatim>\<open>OrderService.ListUserOrders\<close> (\<^verbatim>\<open>order_service.go\<close>, lines 202 to 214).  \<open>repo\<close> is the
  store's \<^verbatim>\<open>ListOrdersByUserID\<close>, called with the user, the limit and the offset; the
  arithmetic is Go's \<^verbatim>\<open>int\<close>, which wraps around.
\<close>

definition ListUserOrders ::
  "(string \<Rightarrow> go_int \<Rightarrow> go_int \<Rightarrow> 'r) \<Rightarrow> string \<Rightarrow> go_int \<Rightarrow> go_int
     \<Rightarrow> order_error + 'r" where
  "ListUserOrders repo userID page pageSize =
     (if userID = [] then Inl ErrInvalidOrderData
      else
        let page1 = (if sint page \<le> 0 then 1 else page);
            pageSize1 = (if sint pageSize \<le> 0 \<or> 100 < sint pageSize then 10 else pageSize);
            offset = (page1 - 1) * pageSize1
        in Inr (repo userID pageSize1 offset))"

subsection \<open>The environment of one \<^verbatim>\<open>CreateOrder\<close> call\<close>

text \<open>
  Everything the call does not decide itself.  The remote calls of one \<^verbatim>\<open>CreateOrder\<close>
  are numbered in the order they are issued, from 0.
  \<^item> \<open>float64\<close>: the conversion \<^verbatim>\<open>float64(int32)\<close>.
  \<^item> \<open>GetUser\<close>: what the user service's client answers for a user identifier
    (\<open>None\<close>: the user exists).
  \<^item> \<open>rpc_fault\<close>: the error of the transport for the product client's call number
    \<open>n\<close>, if it fails there; such a call does not reach the product service.
  \<^item> \<open>db_fault\<close>: the statement the database fails during call number \<open>n\<close>, if any.
  \<^item> \<open>product_uuid\<close>: how the database of the product service reads a text as a
    UUID.
  \<^item> \<open>time_Now\<close>, \<open>uuid_New\<close>: the \<open>k\<close>-th reading of the clock, the \<open>k\<close>-th fresh
    identifier, during call number \<open>n\<close>.
  \<^item> \<open>schedule\<close>: the interleaving of the goroutines of the fan-out: the index of
    the goroutine that takes the next atomic step.
  \<^item> \<open>range_order\<close>: the order in which \<^verbatim>\<open>range\<close> visits the keys of the map of stock
    updates, which Go leaves unspecified.
\<close>

record 'p env =
  float64 :: "int32 \<Rightarrow> 'p"
  GetUser :: "string \<Rightarrow> rpc_error option"
  rpc_fault :: "nat \<Rightarrow> rpc_error option"
  db_fault :: "nat \<Rightarrow> db_step option"
  product_uuid :: uuid_in
  time_Now :: "nat \<Rightarrow> nat \<Rightarrow> time"
  uuid_New :: "nat \<Rightarrow> nat \<Rightarrow> string"
  schedule :: "nat list"
  range_order :: "string list"

text \<open>The remote calls a \<^verbatim>\<open>CreateOrder\<close> issues, each with whether it succeeded.\<close>

datatype call =
    GetUserCall string
  | GetProductCall string
  | UpdateStockCall string int32
  | RepoCreateOrderCall

type_synonym trace = "(call \<times> bool) list"

fun is_GetProduct :: "call \<times> bool \<Rightarrow> bool" where
  "is_GetProduct (GetProductCall _, _) = True"
| "is_GetProduct _ = False"

fun is_UpdateStock :: "call \<times> bool \<Rightarrow> bool" where
  "is_UpdateStock (UpdateStockCall _ _, _) = True"
| "is_UpdateStock _ = False"

fun is_RepoCreateOrder :: "call \<times> bool \<Rightarrow> bool" where
  "is_RepoCreateOrder (RepoCreateOrderCall, _) = True"
| "is_RepoCreateOrder _ = False"

text \<open>The quantity changes of the stock-commit calls issued for one product, in the
  order of the calls.\<close>

fun commits_for :: "string \<Rightarrow> trace \<Rightarrow> int32 list" where
  "commits_for productID [] = []"
| "commits_for productID ((UpdateStockCall p d, _) # tr) =
     (if p = productID then d # commits_for productID tr else commits_for productID tr)"
| "commits_for productID (_ # tr) = commits_for productID tr"

text \<open>The client's \<^verbatim>\<open>GetProduct\<close> and \<^verbatim>\<open>UpdateStock\<close> as call number \<open>n\<close>: the transport,
  then the handler of the product service over the table \<open>db\<close>.\<close>

definition client_GetProduct ::
  "'p env \<Rightarrow> nat \<Rightarrow> 'p products \<Rightarrow> string \<Rightarrow> rpc_error + 'p Product" where
  "client_GetProduct env n db productID =
     (case rpc_fault env n of
        Some err \<Rightarrow> Inl err
      | None \<Rightarrow>
          (case Service_GetProductByID (product_uuid env) (db_fault env n) db productID of
             Inl e \<Rightarrow> Inl (StatusError (GetProduct_status e))
           | Inr product \<Rightarrow> Inr product))"

definition client_UpdateStock ::
  "'p env \<Rightarrow> nat \<Rightarrow> 'p products \<Rightarrow> string \<Rightarrow> int32
     \<Rightarrow> (rpc_error + 'p Product) \<times> 'p products" where
  "client_UpdateStock env n db productID quantityChange =
     (case rpc_fault env n of
        Some err \<Rightarrow> (Inl err, db)
      | None \<Rightarrow>
          (case Service_UpdateStock (product_uuid env) (db_fault env n) (time_Now env n 0) db
                  productID quantityChange of
             (Inl e, db') \<Rightarrow> (Inl (StatusError (UpdateStock_status e)), db')
           | (Inr product, db') \<Rightarrow> (Inr product, db')))"

subsection \<open>The fan-out of \<^verbatim>\<open>CreateOrder\<close>\<close>

text \<open>
  The variables the goroutines share under the mutex \<^verbatim>\<open>mu\<close> (lines 72 to 78), the
  goroutines themselves (each with the item it was started for and the place it has
  reached), and the calls issued so far.  \<open>failed\<close> is a history variable, not a variable
  of the source: every error a goroutine reaches on a failure path (lines 100 to 110 and
  118 to 123), in the order the goroutines take the lock there, whether or not
  \<^verbatim>\<open>firstError\<close> was still free.

  The map \<^verbatim>\<open>productStockUpdates\<close> is an association list in insertion order, with one entry
  per key.
\<close>

datatype 'p pc =
    AtGuard
  | AtFetch
  | AtRecord "rpc_error + 'p Product"
  | Finished

record 'p fanout =
  totalAmount :: 'p
  processedItems :: "'p OrderItem list"
  firstError :: "order_error option"
  productStockUpdates :: "(string \<times> int32) list"
  goroutines :: "('p OrderItem \<times> 'p pc) list"
  calls :: trace
  failed :: "order_error list"

text \<open>\<^verbatim>\<open>if firstError == nil { firstError = ... }\<close> under the lock.\<close>

definition record_error :: "order_error \<Rightarrow> 'p fanout \<Rightarrow> 'p fanout" where
  "record_error e s =
     s\<lparr>firstError := (if firstError s = None then Some e else firstError s),
       failed := failed s @ [e]\<rparr>"

text \<open>\<^verbatim>\<open>productStockUpdates[k] -= q\<close>: a missing key reads as 0.\<close>

definition deduct :: "string \<Rightarrow> int32 \<Rightarrow> (string \<times> int32) list \<Rightarrow> (string \<times> int32) list" where
  "deduct k q m =
     (case map_of m k of
        None \<Rightarrow> m @ [(k, 0 - q)]
      | Some d \<Rightarrow> map (\<lambda>kv. if fst kv = k then (k, snd kv - q) else kv) m)"

text \<open>The item a goroutine appends (lines 128 to 132): the fields it does not name
  are Go's zero values.\<close>

definition processed_item :: "'p::zero Product \<Rightarrow> 'p OrderItem \<Rightarrow> 'p OrderItem" where
  "processed_item product currentItem =
     \<lparr>ItemID = [], ItemOrderID = [], ProductID = Id product, Quantity = Quantity currentItem,
      PriceAtPurchase = ProductPrice product, ItemCreatedAt = 0\<rparr>"

text \<open>
  One atomic step of the goroutine started for \<open>currentItem\<close> (lines 85 to 136), from
  the place \<open>pc\<close>:
  \<^item> \<open>AtGuard\<close>: lines 89 to 94, the goroutine returns if an error is already recorded;
  \<^item> \<open>AtFetch\<close>: line 97, the call of \<^verbatim>\<open>GetProduct\<close>, outside the lock;
  \<^item> \<open>AtRecord r\<close>: with the answer \<open>r\<close>, lines 98 to 134: under the lock, the error is
    recorded, or the total, the processed items and the stock updates are extended.
\<close>

definition goroutine ::
  "'p::{zero,plus,times} env \<Rightarrow> 'p products \<Rightarrow> 'p OrderItem \<Rightarrow> 'p pc \<Rightarrow> 'p fanout
     \<Rightarrow> 'p pc \<times> 'p fanout" where
  "goroutine env db currentItem pc s =
     (case pc of
        AtGuard \<Rightarrow> (if firstError s \<noteq> None then (Finished, s) else (AtFetch, s))
      | AtFetch \<Rightarrow>
          (case client_GetProduct env (length (calls s)) db (ProductID currentItem) of
             Inl err \<Rightarrow>
               (AtRecord (Inl err),
                s\<lparr>calls := calls s @ [(GetProductCall (ProductID currentItem), False)]\<rparr>)
           | Inr product \<Rightarrow>
               (AtRecord (Inr product),
                s\<lparr>calls := calls s @ [(GetProductCall (ProductID currentItem), True)]\<rparr>))
      | AtRecord (Inl err) \<Rightarrow>
          (Finished,
           record_error (ErrProductFetchFailed (wrap_cause (ProductID currentItem) err)) s)
      | AtRecord (Inr product) \<Rightarrow>
          (if sint (ProductStock product) < sint (Quantity currentItem)
           then (Finished,
                 record_error (ErrInsufficientStockForOrder (Id product)
                                 (Quantity currentItem) (ProductStock product)) s)
           else (Finished,
                 s\<lparr>totalAmount :=
                     totalAmount s + ProductPrice product * float64 env (Quantity currentItem),
                   processedItems := processedItems s @ [processed_item product currentItem],
                   productStockUpdates :=
                     deduct (Id product) (Quantity currentItem) (productStockUpdates s)\<rparr>))
      | Finished \<Rightarrow> (Finished, s))"

text \<open>The scheduler lets goroutine \<open>i\<close> take its next step; an index that names no
  goroutine does nothing.\<close>

definition step :: "'p::{zero,plus,times} env \<Rightarrow> 'p products \<Rightarrow> nat \<Rightarrow> 'p fanout \<Rightarrow> 'p fanout" where
  "step env db i s =
     (if i < length (goroutines s)
      then
        (case goroutine env db (fst (goroutines s ! i)) (snd (goroutines s ! i)) s of
           (pc', s') \<Rightarrow> s'\<lparr>goroutines := (goroutines s)[i := (fst (goroutines s ! i), pc')]\<rparr>)
      else s)"

definition run ::
  "'p::{zero,plus,times} env \<Rightarrow> 'p products \<Rightarrow> nat list \<Rightarrow> 'p fanout \<Rightarrow> 'p fanout" where
  "run env db sched s = fold (step env db) sched s"

text \<open>\<^verbatim>\<open>wg.Wait()\<close> (line 138): the caller goes on when every goroutine has returned.
  Whatever the scheduler did before, each goroutine is at most three steps from its
  end, so the goroutines are run to their ends, in the order of their indices.\<close>

definition wait :: "'p::{zero,plus,times} env \<Rightarrow> 'p products \<Rightarrow> 'p fanout \<Rightarrow> 'p fanout" where
  "wait env db s = run env db (concat (map (\<lambda>i. [i, i, i]) [0..<length (goroutines s)])) s"

text \<open>
  The loop that starts the goroutines (lines 80 to 137): the items a goroutine was
  started for, and the error of the early return at the first item whose quantity is
  not positive.  The goroutines started before an early return are not waited for.
\<close>

fun launch :: "'p OrderItem list \<Rightarrow> 'p OrderItem list \<times> order_error option" where
  "launch [] = ([], None)"
| "launch (item # rest) =
     (if sint (Quantity item) \<le> 0 then ([], Some (ErrInvalidQuantity (ProductID item)))
      else (item # fst (launch rest), snd (launch rest)))"

definition fanout_init :: "string \<Rightarrow> 'p::zero OrderItem list \<Rightarrow> 'p fanout" where
  "fanout_init userID started =
     \<lparr>totalAmount = 0, processedItems = [], firstError = None, productStockUpdates = [],
      goroutines = map (\<lambda>item. (item, AtGuard)) started,
      calls = [(GetUserCall userID, True)], failed = []\<rparr>"

subsection \<open>The commit phase and the store\<close>

text \<open>
  \<^verbatim>\<open>for prodID, qtyChange := range productStockUpdates\<close>: the entries whose keys
  \<open>order\<close> lists, in that order, then the others.  Every order of the entries is
  \<open>map_range order m\<close> for some \<open>order\<close>.
\<close>

definition map_range :: "string list \<Rightarrow> (string \<times> int32) list \<Rightarrow> (string \<times> int32) list" where
  "map_range order m =
     concat (map (\<lambda>k. filter (\<lambda>kv. fst kv = k) m) (remdups order))
       @ filter (\<lambda>kv. fst kv \<notin> set order) m"

text \<open>The loop of lines 154 to 171 over the entries in the order given: the error it
  returns with, if any, the table of the product service and the calls issued.\<close>

fun commit ::
  "'p env \<Rightarrow> (string \<times> int32) list \<Rightarrow> 'p products \<Rightarrow> trace
     \<Rightarrow> order_error option \<times> 'p products \<times> trace" where
  "commit env [] db tr = (None, db, tr)"
| "commit env ((prodID, qtyChange) # rest) db tr =
     (case client_UpdateStock env (length tr) db prodID qtyChange of
        (Inl err, db') \<Rightarrow>
          (Some (ErrProductStockUpdateFailed prodID err), db',
           tr @ [(UpdateStockCall prodID qtyChange, False)])
      | (Inr product, db') \<Rightarrow>
          commit env rest db' (tr @ [(UpdateStockCall prodID qtyChange, True)]))"

text \<open>
  \<^verbatim>\<open>OrderRepository.CreateOrder\<close> (\<^verbatim>\<open>order_repository.go\<close>, lines 33 to 77): the order and its
  items are inserted in one transaction; \<open>fault\<close> is the statement the database fails, if
  any (\<open>ExecStmt\<close>: one of the inserts).  A failure leaves the stored orders as they
  were.
\<close>

definition assign_item :: "(nat \<Rightarrow> string) \<Rightarrow> (nat \<Rightarrow> time) \<Rightarrow> string \<Rightarrow> nat \<Rightarrow> 'p OrderItem \<Rightarrow> 'p OrderItem" where
  "assign_item uuid now orderID i item =
     item\<lparr>ItemID := uuid (Suc i), ItemOrderID := orderID, ItemCreatedAt := now (i + 2)\<rparr>"

definition repo_CreateOrder ::
  "db_step option \<Rightarrow> (nat \<Rightarrow> string) \<Rightarrow> (nat \<Rightarrow> time) \<Rightarrow> 'p Order list \<Rightarrow> 'p Order
     \<Rightarrow> (order_error + 'p Order) \<times> 'p Order list" where
  "repo_CreateOrder fault uuid now stored order =
     (if fault = Some BeginTx then (Inl (ErrRepository BeginTx), stored)
      else
        let order1 = order\<lparr>ID := uuid 0, OrderCreatedAt := now 0, OrderUpdatedAt := now 1,
                           Status := (if Status order = [] then StatusPending else Status order)\<rparr>;
            order2 = order1\<lparr>Items := map (\<lambda>(i, item). assign_item uuid now (ID order1) i item)
                                         (enumerate 0 (Items order1))\<rparr>
        in if fault = Some ExecStmt then (Inl (ErrRepository ExecStmt), stored)
           else if fault = Some CommitTx then (Inl (ErrRepository CommitTx), stored)
           else (Inr order2, stored @ [order2]))"

subsection \<open>\<^verbatim>\<open>CreateOrder\<close>\<close>

text \<open>
  What one call leaves behind: its result, the calls it issued (in order, with their
  outcomes), the table of the product service and the stored orders after it, the number
  of goroutines it started, and the errors its goroutines reached.
\<close>

record 'p outcome =
  result :: "order_error + 'p Order"
  trace :: trace
  catalog :: "'p products"
  stored :: "'p Order list"
  started :: nat
  read_failures :: "order_error list"

text \<open>
  \<^verbatim>\<open>OrderService.CreateOrder\<close> (\<^verbatim>\<open>order_service.go\<close>, lines 52 to 192) over the table \<open>db\<close> of the
  product service and the orders \<open>orders\<close> of the store.

  On the early return of line 82 the goroutines already started have taken the steps
  the schedule gave them; nothing waits for them.  Otherwise the schedule runs and
  \<^verbatim>\<open>wg.Wait()\<close> lets every goroutine finish.  The goroutines only read the product
  table, so the fan-out leaves it as it is.
\<close>

definition CreateOrder ::
  "'p::{zero,plus,times} env \<Rightarrow> 'p products \<Rightarrow> 'p Order list \<Rightarrow> string \<Rightarrow> 'p OrderItem list
     \<Rightarrow> 'p outcome" where
  "CreateOrder env db orders userID requestedItems =
     (if userID = [] \<or> requestedItems = []
      then \<lparr>result = Inl ErrInvalidOrderData, trace = [], catalog = db, stored = orders,
            started = 0, read_failures = []\<rparr>
      else case GetUser env userID of
        Some err \<Rightarrow>
          \<lparr>result = Inl (ErrUserValidationFailed (wrap_cause userID err)),
           trace = [(GetUserCall userID, False)], catalog = db, stored = orders,
           started = 0, read_failures = []\<rparr>
      | None \<Rightarrow>
          let s0 = fanout_init userID (fst (launch requestedItems)) in
          (case snd (launch requestedItems) of
             Some e \<Rightarrow>
               let s = run env db (schedule env) s0 in
               \<lparr>result = Inl e, trace = calls s, catalog = db, stored = orders,
                started = length (goroutines s), read_failures = failed s\<rparr>
           | None \<Rightarrow>
               let s = wait env db (run env db (schedule env) s0) in
               (case firstError s of
                  Some e \<Rightarrow>
                    \<lparr>result = Inl e, trace = calls s, catalog = db, stored = orders,
                     started = length (goroutines s), read_failures = failed s\<rparr>
                | None \<Rightarrow>
                    if length (processedItems s) \<noteq> length requestedItems
                    then \<lparr>result = Inl ErrNotAllProcessed, trace = calls s, catalog = db,
                          stored = orders, started = length (goroutines s),
                          read_failures = failed s\<rparr>
                    else
                      (case commit env (map_range (range_order env) (productStockUpdates s))
                              db (calls s) of
                         (Some e, db', tr) \<Rightarrow>
                           \<lparr>result = Inl e, trace = tr, catalog = db', stored = orders,
                            started = length (goroutines s), read_failures = failed s\<rparr>
                       | (None, db', tr) \<Rightarrow>
                           let order = \<lparr>ID = [], UserID = userID, Items = processedItems s,
                                        TotalAmount = totalAmount s, Status = StatusPending,
                                        OrderCreatedAt = 0, OrderUpdatedAt = 0\<rparr>
                           in (case repo_CreateOrder (db_fault env (length tr))
                                      (uuid_New env (length tr)) (time_Now env (length tr))
                                      orders order of
                                 (Inl e, orders') \<Rightarrow>
                                   \<lparr>result = Inl e, trace = tr @ [(RepoCreateOrderCall, False)],
                                    catalog = db', stored = orders',
                                    started = length (goroutines s), read_failures = failed s\<rparr>
                               | (Inr createdOrder, orders') \<Rightarrow>
                                   \<lparr>result = Inr createdOrder,
                                    trace = tr @ [(RepoCreateOrderCall, True)],
                                    catalog = db', stored = orders',
                                    started = length (goroutines s),
                                    read_failures = failed s\<rparr>)))))"

section \<open>Specification vocabulary\<close>

text \<open>The sum of \<^verbatim>\<open>price_at_purchase * float64(quantity)\<close> over the items, added up from
  0 in the order of the list, with the operations of \<open>'p\<close>.\<close>

definition line_total :: "'p::{zero,plus,times} env \<Rightarrow> 'p OrderItem list \<Rightarrow> 'p" where
  "line_total env items =
     foldl (\<lambda>acc item. acc + PriceAtPurchase item * float64 env (Quantity item)) 0 items"

text \<open>The negated sum, in \<^verbatim>\<open>int32\<close>, of the quantities of the items whose product
  identifier is \<open>k\<close>.\<close>

definition delta_for :: "string \<Rightarrow> 'p OrderItem list \<Rightarrow> int32" where
  "delta_for k items = 0 - sum_list (map Quantity (filter (\<lambda>item. ProductID item = k) items))"

text \<open>What a request says of an item: the product and the quantity.\<close>

definition line :: "'p OrderItem \<Rightarrow> string \<times> int32" where
  "line item = (ProductID item, Quantity item)"

text \<open>The identifier under which the product service answers the product that a
  request names \<open>productID\<close>: the key the database reads \<open>productID\<close> as.  Where it reads
  none, no product is answered, and the identifier is left as it is.\<close>

definition catalog_id :: "'p env \<Rightarrow> string \<Rightarrow> string" where
  "catalog_id env productID =
     (case product_uuid env productID of None \<Rightarrow> productID | Some key \<Rightarrow> key)"

text \<open>The requested item under the identifier the product service answers for it.\<close>

definition answered :: "'p env \<Rightarrow> 'p OrderItem \<Rightarrow> 'p OrderItem" where
  "answered env item = item\<lparr>ProductID := catalog_id env (ProductID item)\<rparr>"

text \<open>The item names the product with the key \<open>key\<close>: the database reads the item's
  product identifier as \<open>key\<close>.\<close>

definition names_product :: "'p env \<Rightarrow> string \<Rightarrow> 'p OrderItem \<Rightarrow> bool" where
  "names_product env key item \<longleftrightarrow> product_uuid env (ProductID item) = Some key"

text \<open>The sum of the quantities of the items that name the product with the key
  \<open>key\<close>, as an integer.\<close>

definition requested_quantity :: "'p env \<Rightarrow> string \<Rightarrow> 'p OrderItem list \<Rightarrow> int" where
  "requested_quantity env key items =
     (\<Sum>item\<leftarrow>filter (names_product env key) items. sint (Quantity item))"

text \<open>The product the item names is in the table and its stock covers the quantity of
  this one item.\<close>

definition good_item :: "'p env \<Rightarrow> 'p products \<Rightarrow> 'p OrderItem \<Rightarrow> bool" where
  "good_item env db item =
     (case product_uuid env (ProductID item) of
        None \<Rightarrow> False
      | Some key \<Rightarrow>
          (case db key of
             None \<Rightarrow> False
           | Some row \<Rightarrow> sint (Quantity item) \<le> sint (StockQuantity row)))"

text \<open>An item of the order, which names its product by the key of the row: the item
  carries the price of that row, and the row's stock covers it.\<close>

definition priced :: "'p products \<Rightarrow> 'p OrderItem \<Rightarrow> bool" where
  "priced db item =
     (case db (ProductID item) of
        None \<Rightarrow> False
      | Some row \<Rightarrow> PriceAtPurchase item = Price row
                  \<and> sint (Quantity item) \<le> sint (StockQuantity row))"

text \<open>The two errors a goroutine of the fan-out records.\<close>

fun is_read_error :: "order_error \<Rightarrow> bool" where
  "is_read_error (ErrProductFetchFailed _) = True"
| "is_read_error (ErrInsufficientStockForOrder _ _ _) = True"
| "is_read_error _ = False"

text \<open>
  The error \<open>e\<close> is the failure of a read task for one of the items: the client's
  \<^verbatim>\<open>GetProduct\<close> for the item's product fails and \<open>e\<close> wraps that error, or it answers a
  product whose stock is less than the item's quantity and \<open>e\<close> says so.
\<close>

definition read_failure ::
  "'p env \<Rightarrow> 'p products \<Rightarrow> 'p OrderItem list \<Rightarrow> order_error \<Rightarrow> bool" where
  "read_failure env db its e =
     (\<exists>item\<in>set its.
        (\<exists>n err. client_GetProduct env n db (ProductID item) = Inl err
            \<and> e = ErrProductFetchFailed (wrap_cause (ProductID item) err))
      \<or> (\<exists>n product. client_GetProduct env n db (ProductID item) = Inr product
            \<and> sint (ProductStock product) < sint (Quantity item)
            \<and> e = ErrInsufficientStockForOrder (Id product) (Quantity item)
                    (ProductStock product)))"

text \<open>The stock of the row with the key \<open>key\<close> in a table.\<close>

definition stock_of :: "'p products \<Rightarrow> string \<Rightarrow> int32 option" where
  "stock_of db key = map_option StockQuantity (db key)"

text \<open>The quantity changes of the stock-commit calls that succeeded and whose product
  identifier the database reads as \<open>key\<close>, in the order of the calls.\<close>

fun applied_for :: "uuid_in \<Rightarrow> string \<Rightarrow> trace \<Rightarrow> int32 list" where
  "applied_for uuid_in key [] = []"
| "applied_for uuid_in key ((UpdateStockCall p d, ok) # tr) =
     (if ok \<and> uuid_in p = Some key then d # applied_for uuid_in key tr
      else applied_for uuid_in key tr)"
| "applied_for uuid_in key (_ # tr) = applied_for uuid_in key tr"

subsection \<open>The invariant of the fan-out\<close>

text \<open>A goroutine that holds an answer of \<^verbatim>\<open>GetProduct\<close> holds what the client answers
  for the product of its item.\<close>

definition task_ok :: "'p env \<Rightarrow> 'p products \<Rightarrow> 'p OrderItem \<times> 'p pc \<Rightarrow> bool" where
  "task_ok env db g =
     (case snd g of
        AtRecord r \<Rightarrow> (\<exists>n. client_GetProduct env n db (ProductID (fst g)) = r)
      | _ \<Rightarrow> True)"

definition at_failed_fetch :: "'p OrderItem \<times> 'p pc \<Rightarrow> bool" where
  "at_failed_fetch g = (case snd g of AtRecord (Inl _) \<Rightarrow> True | _ \<Rightarrow> False)"

text \<open>What every interleaving of the goroutines keeps true of the shared state, for
  the goroutines started for the items \<open>its\<close>.\<close>

definition fan_inv ::
  "'p::{zero,plus,times} env \<Rightarrow> 'p products \<Rightarrow> string \<Rightarrow> 'p OrderItem list \<Rightarrow> 'p fanout
     \<Rightarrow> bool" where
  "fan_inv env db userID its s \<longleftrightarrow>
     map fst (goroutines s) = its
   \<and> list_all (task_ok env db) (goroutines s)
   \<and> totalAmount s = line_total env (processedItems s)
   \<and> list_all (priced db) (processedItems s)
   \<and> distinct (map fst (productStockUpdates s))
   \<and> (\<forall>k. map_of (productStockUpdates s) k =
          (if k \<in> ProductID ` set (processedItems s)
           then Some (delta_for k (processedItems s)) else None))
   \<and> (firstError s = None \<longrightarrow>
        mset (map line (processedItems s)) =
        mset (map (line \<circ> answered env \<circ> fst)
                (filter (\<lambda>g. snd g = Finished) (goroutines s))))
   \<and> firstError s = (case failed s of [] \<Rightarrow> None | e # _ \<Rightarrow> Some e)
   \<and> list_all (read_failure env db its) (failed s)
   \<and> list_all (\<lambda>g. snd g \<noteq> Finished \<or> good_item env db (fst g) \<or> firstError s \<noteq> None)
        (goroutines s)
   \<and> calls s = (GetUserCall userID, True) # tl (calls s)
   \<and> list_all is_GetProduct (tl (calls s))
   \<and> (list_all snd (calls s) \<or> firstError s \<noteq> None
        \<or> list_ex at_failed_fetch (goroutines s))"

text \<open>How far a goroutine has come: it is at its end after at most three steps.\<close>

fun progress :: "'p pc \<Rightarrow> nat" where
  "progress AtGuard = 0"
| "progress AtFetch = 1"
| "progress (AtRecord _) = 2"
| "progress Finished = 3"

subsection \<open>The fetches of the fan-out\<close>




section \<open>Example data\<close>

text \<open>A product table with two products, prices in whole units.\<close>

definition example_row :: "int \<Rightarrow> int32 \<Rightarrow> int ProductRow" where
  "example_row price stock =
     \<lparr>Name = ''widget'', Description = '''', Price = price, StockQuantity = stock,
      CreatedAt = 0, UpdatedAt = 0\<rparr>"

definition example_db :: "int products" where
  "example_db = [''P1'' \<mapsto> example_row 10 5, ''P2'' \<mapsto> example_row 5 7]"

subsection \<open>Shorthands\<close>

text \<open>The shared state when \<^verbatim>\<open>wg.Wait()\<close> returns, for the goroutines started for
  \<open>items\<close>.\<close>

abbreviation joined ::
  "'p::{zero,plus,times} env \<Rightarrow> 'p products \<Rightarrow> string \<Rightarrow> 'p OrderItem list \<Rightarrow> 'p fanout" where
  "joined env db userID items \<equiv>
     wait env db (run env db (schedule env) (fanout_init userID items))"

text \<open>The entry of the trace for a stock-commit call that succeeded, and for one that
  failed.\<close>

definition ok_call :: "string \<times> int32 \<Rightarrow> call \<times> bool" where
  "ok_call kv = (UpdateStockCall (fst kv) (snd kv), True)"

definition failed_call :: "string \<times> int32 \<Rightarrow> call \<times> bool" where
  "failed_call kv = (UpdateStockCall (fst kv) (snd kv), False)"

text \<open>A request names a product and a quantity; the other fields of the item are
  Go's zero values, as the handlers build it.\<close>

definition requested :: "string \<Rightarrow> int32 \<Rightarrow> 'p::zero OrderItem" where
  "requested productID quantity =
     \<lparr>ItemID = [], ItemOrderID = [], ProductID = productID, Quantity = quantity,
      PriceAtPurchase = 0, ItemCreatedAt = 0\<rparr>"

text \<open>An environment in which the user \<^verbatim>\<open>alice\<close> exists and no other, nothing else
  fails, every identifier is the key it is read as, the goroutines run one after the
  other and the map is visited in the order of insertion.\<close>

definition example_env :: "int env" where
  "example_env =
     \<lparr>float64 = sint,
      GetUser = (\<lambda>u. if u = ''alice'' then None else Some (StatusError NotFound)),
      rpc_fault = (\<lambda>n. None), db_fault = (\<lambda>n. None), product_uuid = Some,
      time_Now = (\<lambda>n k. 1000 + n), uuid_New = (\<lambda>n k. ''id''),
      schedule = [], range_order = []\<rparr>"

text \<open>The same environment over a database that reads the identifier \<^verbatim>\<open>p1\<close> as the key
  \<^verbatim>\<open>P1\<close>, a second spelling of the one UUID, with the map visited from \<^verbatim>\<open>P1\<close>.\<close>

definition respelling_env :: "int env" where
  "respelling_env =
     example_env\<lparr>range_order := [''P1''],
       product_uuid := (\<lambda>text. if text = ''p1'' then Some ''P1'' else Some text)\<rparr>"

section \<open>Every interleaving keeps the invariant\<close>

lemma fan_inv_init: "fan_inv env db userID its (fanout_init userID its)"
  by (simp add: fan_inv_def fanout_init_def line_total_def comp_def list_all_iff task_ok_def)

lemma list_all_update: "list_all P xs \<Longrightarrow> P y \<Longrightarrow> list_all P (xs[i := y])"
proof -
  assume a: "list_all P xs" and y: "P y"
  have "set (xs[i := y]) \<subseteq> insert y (set xs)" by (rule set_update_subset_insert)
  with a y show ?thesis by (auto simp: list_all_iff)
qed

lemma map_fst_update: "i < length xs \<Longrightarrow> fst (xs ! i) = a \<Longrightarrow> map fst (xs[i := (a, y)]) = map fst xs"
  by (simp add: map_update list_update_same_conv)

lemma mset_filter_update:
  assumes "i < length gs" and "\<not> P (gs ! i)"
  shows "mset (filter P (gs[i := y])) = (if P y then {#y#} else {#}) + mset (filter P gs)"
proof -
  have "mset (gs[i := y]) = add_mset y (mset gs - {#gs ! i#})"
    using assms(1) by (simp add: mset_update)
  then have "filter_mset P (mset (gs[i := y])) = filter_mset P (add_mset y (mset gs - {#gs ! i#}))"
    by simp
  also have "\<dots> = (if P y then {#y#} else {#}) + (filter_mset P (mset gs) - filter_mset P {#gs ! i#})"
    by simp
  also have "\<dots> = (if P y then {#y#} else {#}) + filter_mset P (mset gs)"
    using assms(2) by simp
  finally show ?thesis by simp
qed

lemma list_ex_update_other:
  "list_ex P gs \<Longrightarrow> i < length gs \<Longrightarrow> \<not> P (gs ! i) \<Longrightarrow> list_ex P (gs[i := y])"
proof -
  assume ex: "list_ex P gs" and i: "i < length gs" and n: "\<not> P (gs ! i)"
  from ex obtain j where j: "j < length gs" "P (gs ! j)"
    by (auto simp: list_ex_iff in_set_conv_nth)
  with n have "j \<noteq> i" by auto
  with j have "j < length (gs[i := y])" "P (gs[i := y] ! j)" by simp_all
  then show ?thesis
    unfolding list_ex_iff using nth_mem by blast
qed

lemma delta_for_snoc:
  "delta_for k (xs @ [x]) = (if ProductID x = k then delta_for k xs - Quantity x else delta_for k xs)"
  by (simp add: delta_for_def)

lemma delta_for_absent: "k \<notin> ProductID ` set xs \<Longrightarrow> delta_for k xs = 0"
proof -
  assume "k \<notin> ProductID ` set xs"
  then have "filter (\<lambda>item. ProductID item = k) xs = []"
    by (auto simp: filter_empty_conv)
  then show ?thesis by (simp add: delta_for_def)
qed

lemma distinct_deduct: "distinct (map fst m) \<Longrightarrow> distinct (map fst (deduct k q m))"
proof -
  assume d: "distinct (map fst m)"
  have same: "map fst (map (\<lambda>kv. if fst kv = k then (k, snd kv - q) else kv) m) = map fst m"
    by (induction m) auto
  then have same': "map (fst \<circ> (\<lambda>kv. if fst kv = k then (k, snd kv - q) else kv)) m = map fst m"
    by simp
  show ?thesis
  proof (cases "map_of m k")
    case None
    then have "k \<notin> fst ` set m" by (simp add: map_of_eq_None_iff)
    with d None show ?thesis by (simp add: deduct_def)
  next
    case (Some v)
    with d same' show ?thesis by (simp add: deduct_def del: map_eq_conv)
  qed
qed

lemma map_of_deduct_aux:
  "map_of (map (\<lambda>kv. if fst kv = k then (k, snd kv - q) else kv) m) k' =
     (if k' = k then map_option (\<lambda>d. d - q) (map_of m k) else map_of m k')"
  by (induction m) auto

lemma map_of_deduct:
  "map_of (deduct k q m) k' =
     (if k' = k then Some ((case map_of m k of None \<Rightarrow> 0 | Some d \<Rightarrow> d) - q) else map_of m k')"
proof (cases "map_of m k")
  case None
  then show ?thesis by (simp add: deduct_def map_add_def split: option.splits)
next
  case (Some d)
  then show ?thesis by (simp add: deduct_def map_of_deduct_aux)
qed

lemma update_self: "i < length gs \<Longrightarrow> gs ! i = g \<Longrightarrow> gs[i := g] = gs"
  by (simp add: list_update_same_conv)

lemma filter_mset_update:
  assumes "i < length gs" and "\<not> P (gs ! i)"
  shows "filter_mset P (mset (gs[i := y])) = (if P y then {#y#} else {#}) + filter_mset P (mset gs)"
  using mset_filter_update [of i gs P y] assms by simp

lemma inv_guard_skip:
  assumes "fan_inv env db u its s" "i < length (goroutines s)"
    "goroutines s ! i = (it, AtGuard)" "firstError s \<noteq> None"
  shows "fan_inv env db u its (s\<lparr>goroutines := (goroutines s)[i := (it, Finished)]\<rparr>)"
  using assms unfolding fan_inv_def
  by (auto simp: map_fst_update filter_mset_update task_ok_def at_failed_fetch_def
           intro!: list_all_update list_ex_update_other)

lemma inv_guard_pass:
  assumes "fan_inv env db u its s" "i < length (goroutines s)"
    "goroutines s ! i = (it, AtGuard)" "firstError s = None"
  shows "fan_inv env db u its (s\<lparr>goroutines := (goroutines s)[i := (it, AtFetch)]\<rparr>)"
  using assms unfolding fan_inv_def
  by (auto simp: map_fst_update filter_mset_update task_ok_def at_failed_fetch_def
           intro!: list_all_update list_ex_update_other)

lemma client_GetProduct_Inr:
  "client_GetProduct env n db pid = Inr p \<Longrightarrow>
     product_uuid env pid = Some (Id p)
     \<and> (\<exists>row. db (Id p) = Some row \<and> ProductPrice p = Price row
            \<and> ProductStock p = StockQuantity row)"
  by (auto simp: client_GetProduct_def Service_GetProductByID_def GetProductByID_def scan_def
           split: option.splits if_splits sum.splits)

lemma inv_fetch:
  assumes "fan_inv env db u its s" "i < length (goroutines s)"
    "goroutines s ! i = (it, AtFetch)"
    "client_GetProduct env n db (ProductID it) = r"
  shows "fan_inv env db u its
           (s\<lparr>calls := calls s @ [(GetProductCall (ProductID it), \<not> isl r)],
              goroutines := (goroutines s)[i := (it, AtRecord r)]\<rparr>)"
proof -
  have t: "task_ok env db (it, AtRecord r)"
    using assms(4) by (auto simp: task_ok_def)
  have c: "calls s \<noteq> []" using assms(1) unfolding fan_inv_def by (metis list.distinct(1))
  have "(it, AtRecord r) \<in> set ((goroutines s)[i := (it, AtRecord r)])"
    using assms(2) by (rule set_update_memI)
  then have ex: "isl r \<Longrightarrow> list_ex at_failed_fetch ((goroutines s)[i := (it, AtRecord r)])"
    unfolding list_ex_iff by (rule bexI [rotated]) (cases r; simp add: at_failed_fetch_def)
  have keep: "list_ex at_failed_fetch (goroutines s) \<Longrightarrow>
                list_ex at_failed_fetch ((goroutines s)[i := (it, AtRecord r)])"
    using assms(2,3) by (intro list_ex_update_other) (simp_all add: at_failed_fetch_def)
  show ?thesis
    using assms(1-3) t c ex keep unfolding fan_inv_def
    by (auto simp: map_fst_update filter_mset_update intro!: list_all_update)
qed

lemma inv_record_error:
  assumes "fan_inv env db u its s" "i < length (goroutines s)"
    "goroutines s ! i = (it, pc)" "pc \<noteq> Finished" "read_failure env db its e"
  shows "fan_inv env db u its
           ((record_error e s)\<lparr>goroutines := (goroutines s)[i := (it, Finished)]\<rparr>)"
proof -
  have fe: "firstError (record_error e s) \<noteq> None"
    by (simp add: record_error_def)
  have f: "firstError (record_error e s) =
             (case failed (record_error e s) of [] \<Rightarrow> None | x # _ \<Rightarrow> Some x)"
    using assms(1) unfolding fan_inv_def
    by (auto simp: record_error_def split: list.splits)
  have g: "list_all (\<lambda>g. snd g \<noteq> Finished \<or> good_item env db (fst g)
                       \<or> firstError (record_error e s) \<noteq> None)
             ((goroutines s)[i := (it, Finished)])"
    using fe by (simp add: list_all_iff)
  show ?thesis
    using assms fe f g unfolding fan_inv_def
    by (auto simp: map_fst_update task_ok_def record_error_def
           intro!: list_all_update)
qed

lemma task_item:
  assumes "fan_inv env db u its s" "i < length (goroutines s)" "goroutines s ! i = (it, pc)"
  shows "it \<in> set its" and "task_ok env db (it, pc)"
proof -
  from assms(1) have its: "map fst (goroutines s) = its"
    by (simp add: fan_inv_def)
  have "its ! i \<in> set its"
    using assms(2) its by (metis length_map nth_mem)
  moreover have "its ! i = it"
    using assms(2,3) its by (metis nth_map fst_conv)
  ultimately show "it \<in> set its" by simp
  have "task_ok env db (goroutines s ! i)"
    using assms(1,2) unfolding fan_inv_def by (simp add: list_all_length)
  then show "task_ok env db (it, pc)" by (simp only: assms(3))
qed

lemma line_total_snoc:
  "line_total env (xs @ [x]) = line_total env xs + PriceAtPurchase x * float64 env (Quantity x)"
  by (simp add: line_total_def)

lemma inv_record_item:
  assumes inv: "fan_inv env db u its s" and i: "i < length (goroutines s)"
    and g: "goroutines s ! i = (it, AtRecord (Inr p))"
    and enough: "\<not> sint (ProductStock p) < sint (Quantity it)"
  shows "fan_inv env db u its
           (s\<lparr>totalAmount := totalAmount s + ProductPrice p * float64 env (Quantity it),
              processedItems := processedItems s @ [processed_item p it],
              productStockUpdates := deduct (Id p) (Quantity it) (productStockUpdates s),
              goroutines := (goroutines s)[i := (it, Finished)]\<rparr>)"
proof -
  have "task_ok env db (it, AtRecord (Inr p))"
    using inv i g by (rule task_item)
  then obtain n where "client_GetProduct env n db (ProductID it) = Inr p"
    by (auto simp: task_ok_def)
  from client_GetProduct_Inr [OF this]
  obtain row where id: "product_uuid env (ProductID it) = Some (Id p)"
    and row: "db (Id p) = Some row"
    and p: "ProductPrice p = Price row" "ProductStock p = StockQuantity row"
    by blast
  have pi: "ProductID (processed_item p it) = Id p"
       "Quantity (processed_item p it) = Quantity it"
       "PriceAtPurchase (processed_item p it) = ProductPrice p"
    by (simp_all add: processed_item_def)
  have good: "good_item env db it"
    using id row p enough by (simp add: good_item_def)
  have pr: "priced db (processed_item p it)"
    using row p enough pi by (simp add: priced_def)
  have ln: "line (processed_item p it) = line (answered env it)"
    using pi id by (simp add: line_def answered_def catalog_id_def)
  have m: "\<forall>k. map_of (deduct (Id p) (Quantity it) (productStockUpdates s)) k =
             (if k \<in> ProductID ` set (processedItems s @ [processed_item p it])
              then Some (delta_for k (processedItems s @ [processed_item p it])) else None)"
  proof
    fix k
    have old: "map_of (productStockUpdates s) k =
          (if k \<in> ProductID ` set (processedItems s)
           then Some (delta_for k (processedItems s)) else None)" for k
      using inv unfolding fan_inv_def by blast
    show "map_of (deduct (Id p) (Quantity it) (productStockUpdates s)) k =
             (if k \<in> ProductID ` set (processedItems s @ [processed_item p it])
              then Some (delta_for k (processedItems s @ [processed_item p it])) else None)"
    proof (cases "k = Id p")
      case True
      show ?thesis
      proof (cases "Id p \<in> ProductID ` set (processedItems s)")
        case in_old: True
        then show ?thesis
          using True pi old [of "Id p"]
          by (simp add: map_of_deduct delta_for_snoc)
      next
        case False
        then show ?thesis
          using True pi old [of "Id p"] delta_for_absent [OF False]
          by (simp add: map_of_deduct delta_for_snoc)
      qed
    next
      case False
      then show ?thesis
        using pi old [of k] by (simp add: map_of_deduct delta_for_snoc)
    qed
  qed
  have fin: "firstError s = None \<longrightarrow>
        mset (map line (processedItems s @ [processed_item p it])) =
        mset (map (line \<circ> answered env \<circ> fst)
               (filter (\<lambda>g. snd g = Finished) ((goroutines s)[i := (it, Finished)])))"
    using inv i g ln unfolding fan_inv_def
    by (auto simp: filter_mset_update)
  have d: "distinct (map fst (deduct (Id p) (Quantity it) (productStockUpdates s)))"
    using inv unfolding fan_inv_def by (auto intro: distinct_deduct)
  have ga: "list_all (\<lambda>g. snd g \<noteq> Finished \<or> good_item env db (fst g) \<or> firstError s \<noteq> None)
             ((goroutines s)[i := (it, Finished)])"
    using inv good unfolding fan_inv_def by (auto intro!: list_all_update)
  have ex: "list_all snd (calls s) \<or> firstError s \<noteq> None
        \<or> list_ex at_failed_fetch ((goroutines s)[i := (it, Finished)])"
    using inv i g unfolding fan_inv_def
    by (auto simp: at_failed_fetch_def intro!: list_ex_update_other)
  have t: "list_all (task_ok env db) ((goroutines s)[i := (it, Finished)])"
    using inv unfolding fan_inv_def by (auto simp: task_ok_def intro!: list_all_update)
  have mf: "map fst ((goroutines s)[i := (it, Finished)]) = its"
    using inv i g unfolding fan_inv_def by (simp add: map_fst_update)
  show ?thesis
    unfolding fan_inv_def
    using inv m fin d ga ex t mf pr pi
    by (simp add: fan_inv_def line_total_snoc)
qed

lemma step_preserves:
  assumes inv: "fan_inv env db u its s"
  shows "fan_inv env db u its (step env db i s)"
proof (cases "i < length (goroutines s)")
  case False
  with inv show ?thesis by (simp add: step_def)
next
  case i: True
  obtain it pc where g: "goroutines s ! i = (it, pc)" by (cases "goroutines s ! i")
  note item = task_item [OF inv i g]
  show ?thesis
  proof (cases pc)
    case AtGuard
    then show ?thesis
      using inv i g inv_guard_skip [of env db u its s i it] inv_guard_pass [of env db u its s i it]
      by (simp add: step_def goroutine_def)
  next
    case AtFetch
    obtain r where r: "client_GetProduct env (length (calls s)) db (ProductID it) = r"
      by simp
    have "fan_inv env db u its
           (s\<lparr>calls := calls s @ [(GetProductCall (ProductID it), \<not> isl r)],
              goroutines := (goroutines s)[i := (it, AtRecord r)]\<rparr>)"
      using inv i g r unfolding AtFetch by (rule inv_fetch)
    then show ?thesis
      using i g r AtFetch by (cases r) (simp_all add: step_def goroutine_def)
  next
    case (AtRecord r)
    show ?thesis
    proof (cases r)
      case (Inl err)
      have "read_failure env db its (ErrProductFetchFailed (wrap_cause (ProductID it) err))"
        using item AtRecord Inl unfolding read_failure_def task_ok_def
        by (intro bexI [of _ it]) auto
      then show ?thesis
        using inv i g AtRecord Inl
          inv_record_error [of env db u its s i it pc
             "ErrProductFetchFailed (wrap_cause (ProductID it) err)"]
        by (simp add: step_def goroutine_def)
    next
      case (Inr p)
      show ?thesis
      proof (cases "sint (ProductStock p) < sint (Quantity it)")
        case True
        have "read_failure env db its
                (ErrInsufficientStockForOrder (Id p) (Quantity it) (ProductStock p))"
          using item AtRecord Inr True unfolding read_failure_def task_ok_def
          by (intro bexI [of _ it]) auto
        then show ?thesis
          using inv i g AtRecord Inr True
            inv_record_error [of env db u its s i it pc
               "ErrInsufficientStockForOrder (Id p) (Quantity it) (ProductStock p)"]
          by (simp add: step_def goroutine_def)
      next
        case False
        then show ?thesis
          using inv i g AtRecord Inr inv_record_item [of env db u its s i it p]
          by (simp add: step_def goroutine_def)
      qed
    qed
  next
    case Finished
    then show ?thesis
      using inv i g by (simp add: step_def goroutine_def update_self)
  qed
qed

lemma run_preserves:
  "fan_inv env db u its s \<Longrightarrow> fan_inv env db u its (run env db sched s)"
  unfolding run_def by (induction sched arbitrary: s) (simp_all add: step_preserves)

section \<open>The join: every goroutine finishes\<close>

lemma progress_Finished: "3 \<le> progress pc \<longleftrightarrow> pc = Finished"
  by (cases pc) simp_all

lemma goroutine_progress:
  "progress pc \<le> progress (fst (goroutine env db it pc s))"
  "pc \<noteq> Finished \<Longrightarrow> progress pc < progress (fst (goroutine env db it pc s))"
  by (cases pc; auto simp: goroutine_def split: sum.splits)+

lemma step_length [simp]: "length (goroutines (step env db i s)) = length (goroutines s)"
  by (simp add: step_def split: prod.splits)

lemma step_goroutines:
  "goroutines (step env db i s) =
     (if i < length (goroutines s)
      then (goroutines s)[i := (fst (goroutines s ! i),
              fst (goroutine env db (fst (goroutines s ! i)) (snd (goroutines s ! i)) s))]
      else goroutines s)"
  by (simp add: step_def split: prod.splits)

lemma step_progress_mono:
  assumes "j < length (goroutines s)"
  shows "progress (snd (goroutines s ! j)) \<le> progress (snd (goroutines (step env db i s) ! j))"
  using assms goroutine_progress(1) [of "snd (goroutines s ! j)" env db "fst (goroutines s ! j)" s]
  by (cases "j = i") (simp_all add: step_goroutines)

lemma step_progress_strict:
  assumes "i < length (goroutines s)" and "snd (goroutines s ! i) \<noteq> Finished"
  shows "progress (snd (goroutines s ! i)) < progress (snd (goroutines (step env db i s) ! i))"
  using assms goroutine_progress(2) [of "snd (goroutines s ! i)" env db "fst (goroutines s ! i)" s]
  by (simp add: step_goroutines)

lemma step_progress:
  assumes "i < length (goroutines s)" and "n \<le> progress (snd (goroutines s ! i))"
  shows "min 3 (Suc n) \<le> progress (snd (goroutines (step env db i s) ! i))"
proof (cases "snd (goroutines s ! i) = Finished")
  case True
  then have "3 \<le> progress (snd (goroutines s ! i))" by simp
  also have "\<dots> \<le> progress (snd (goroutines (step env db i s) ! i))"
    using assms(1) by (rule step_progress_mono)
  finally show ?thesis by simp
next
  case False
  with assms show ?thesis
    using step_progress_strict [of i s env db] by simp
qed

lemma run_length [simp]: "length (goroutines (run env db sched s)) = length (goroutines s)"
  unfolding run_def by (induction sched arbitrary: s) simp_all

lemma run_progress_mono:
  "j < length (goroutines s) \<Longrightarrow>
     progress (snd (goroutines s ! j)) \<le> progress (snd (goroutines (run env db sched s) ! j))"
  unfolding run_def
proof (induction sched arbitrary: s)
  case Nil
  then show ?case by simp
next
  case (Cons i sched)
  have "progress (snd (goroutines s ! j)) \<le> progress (snd (goroutines (step env db i s) ! j))"
    using Cons.prems by (rule step_progress_mono)
  also have "\<dots> \<le> progress (snd (goroutines (fold (step env db) sched (step env db i s)) ! j))"
    using Cons.prems by (intro Cons.IH) simp
  finally show ?case by simp
qed

lemma three_steps:
  assumes "i < length (goroutines s)"
  shows "snd (goroutines (run env db [i, i, i] s) ! i) = Finished"
proof -
  let ?s1 = "step env db i s"
  let ?s2 = "step env db i ?s1"
  let ?s3 = "step env db i ?s2"
  have "min 3 (Suc 0) \<le> progress (snd (goroutines ?s1 ! i))"
    using assms by (intro step_progress) simp_all
  then have 1: "1 \<le> progress (snd (goroutines ?s1 ! i))" by simp
  have "min 3 (Suc 1) \<le> progress (snd (goroutines ?s2 ! i))"
    using assms 1 by (intro step_progress) simp_all
  then have 2: "2 \<le> progress (snd (goroutines ?s2 ! i))" by simp
  have "min 3 (Suc 2) \<le> progress (snd (goroutines ?s3 ! i))"
    using assms 2 by (intro step_progress) simp_all
  then have "3 \<le> progress (snd (goroutines ?s3 ! i))" by simp
  then show ?thesis by (simp add: progress_Finished run_def)
qed

lemma run_append: "run env db (xs @ ys) s = run env db ys (run env db xs s)"
  by (simp add: run_def)

lemma finish_upto:
  "k \<le> length (goroutines s) \<Longrightarrow> j < k \<Longrightarrow>
     snd (goroutines (run env db (concat (map (\<lambda>i. [i, i, i]) [0..<k])) s) ! j) = Finished"
proof (induction k)
  case 0
  then show ?case by simp
next
  case (Suc k)
  let ?s = "run env db (concat (map (\<lambda>i. [i, i, i]) [0..<k])) s"
  have len: "length (goroutines ?s) = length (goroutines s)" by simp
  have eq: "run env db (concat (map (\<lambda>i. [i, i, i]) [0..<Suc k])) s = run env db [k, k, k] ?s"
    by (simp add: run_append)
  show ?case
  proof (cases "j = k")
    case True
    have "snd (goroutines (run env db [k, k, k] ?s) ! k) = Finished"
      using Suc.prems len by (intro three_steps) simp
    with True show ?thesis by (simp only: eq)
  next
    case False
    with Suc have "snd (goroutines ?s ! j) = Finished" by simp
    then have "3 \<le> progress (snd (goroutines ?s ! j))" by simp
    also have "\<dots> \<le> progress (snd (goroutines (run env db [k, k, k] ?s) ! j))"
      using Suc.prems len by (intro run_progress_mono) simp
    finally show ?thesis by (simp only: eq progress_Finished)
  qed
qed

lemma wait_finished:
  "list_all (\<lambda>g. snd g = Finished) (goroutines (wait env db s))"
proof -
  have "length (goroutines (wait env db s)) = length (goroutines s)"
    by (simp add: wait_def)
  moreover have "j < length (goroutines s) \<Longrightarrow> snd (goroutines (wait env db s) ! j) = Finished" for j
    using finish_upto [of "length (goroutines s)" s j env db] by (simp add: wait_def)
  ultimately show ?thesis by (simp add: list_all_length)
qed

lemma wait_preserves:
  "fan_inv env db u its s \<Longrightarrow> fan_inv env db u its (wait env db s)"
  unfolding wait_def by (rule run_preserves)

section \<open>Every fetch belongs to a goroutine\<close>















section \<open>The state after the join\<close>

lemma launch_all_positive:
  "list_all (\<lambda>item. 0 < sint (Quantity item)) items \<Longrightarrow> launch items = (items, None)"
  by (induction items) simp_all

lemma launch_None:
  "snd (launch items) = None \<Longrightarrow>
     fst (launch items) = items \<and> list_all (\<lambda>item. 0 < sint (Quantity item)) items"
  by (induction items) (auto split: if_splits)

lemma launch_Some:
  "snd (launch items) = Some e \<Longrightarrow>
     is_InvalidOrderData e \<and> \<not> list_all (\<lambda>item. 0 < sint (Quantity item)) items
     \<and> length (fst (launch items)) < length items"
  by (induction items) (auto split: if_splits)

lemma launch_not_positive:
  "\<not> list_all (\<lambda>item. 0 < sint (Quantity item)) items \<Longrightarrow> \<exists>e. snd (launch items) = Some e"
  by (induction items) auto

lemma line_mset_delta:
  fixes xs ys :: "'p OrderItem list"
  assumes "mset (map line xs) = mset (map line ys)"
  shows "delta_for k xs = delta_for k ys" and "ProductID ` set xs = ProductID ` set ys"
proof -
  have d: "delta_for k zs = 0 - sum_mset (image_mset snd (filter_mset (\<lambda>l. fst l = k) (mset (map line zs))))"
    for zs :: "'p OrderItem list"
  proof -
    have "map Quantity (filter (\<lambda>item. ProductID item = k) zs)
            = map snd (filter (\<lambda>l. fst l = k) (map line zs))"
      by (induction zs) (simp_all add: line_def)
    then have "sum_list (map Quantity (filter (\<lambda>item. ProductID item = k) zs))
            = sum_mset (mset (map snd (filter (\<lambda>l. fst l = k) (map line zs))))"
      by (simp only: sum_mset_sum_list)
    then show ?thesis by (simp add: delta_for_def)
  qed
  show "delta_for k xs = delta_for k ys"
    unfolding d [of xs] d [of ys] using assms by simp
  have p: "ProductID ` set zs = fst ` set_mset (mset (map line zs))" for zs :: "'p OrderItem list"
    by (force simp: line_def)
  show "ProductID ` set xs = ProductID ` set ys"
    unfolding p [of xs] p [of ys] using assms by simp
qed

lemma fanout_joined:
  fixes env :: "'p::{zero,plus,times} env" and db sched u its
  defines "s \<equiv> wait env db (run env db sched (fanout_init u its))"
  shows "fan_inv env db u its s"
    and "list_all (\<lambda>g. snd g = Finished) (goroutines s)"
    and "length (goroutines s) = length its"
proof -
  show "fan_inv env db u its s"
    unfolding s_def by (intro wait_preserves run_preserves fan_inv_init)
  show "list_all (\<lambda>g. snd g = Finished) (goroutines s)"
    unfolding s_def by (rule wait_finished)
  show "length (goroutines s) = length its"
    unfolding s_def by (simp add: wait_def fanout_init_def)
qed

lemma fanout_no_error:
  fixes env :: "'p::{zero,plus,times} env" and db sched u its
  defines "s \<equiv> wait env db (run env db sched (fanout_init u its))"
  assumes none: "firstError s = None"
  shows "mset (map line (processedItems s)) = mset (map line (map (answered env) its))"
    and "length (processedItems s) = length its"
    and "list_all (good_item env db) its"
    and "list_all snd (calls s)"
    and "map_of (productStockUpdates s) k =
           (if k \<in> ProductID ` set (map (answered env) its)
            then Some (delta_for k (map (answered env) its)) else None)"
    and "failed s = []"
proof -
  have inv: "fan_inv env db u its s" and fin: "list_all (\<lambda>g. snd g = Finished) (goroutines s)"
    unfolding s_def by (rule fanout_joined)+
  from fin have all: "filter (\<lambda>g. snd g = Finished) (goroutines s) = goroutines s"
    by (simp add: list_all_iff)
  have its: "map fst (goroutines s) = its"
    using inv by (simp add: fan_inv_def)
  have "mset (map line (processedItems s))
          = mset (map (line \<circ> answered env \<circ> fst) (goroutines s))"
    using inv none all by (simp add: fan_inv_def)
  also have "\<dots> = mset (map line (map (answered env) (map fst (goroutines s))))"
    by (simp add: comp_def)
  finally show m: "mset (map line (processedItems s)) = mset (map line (map (answered env) its))"
    by (simp only: its)
  then have "size (mset (map line (processedItems s)))
               = size (mset (map line (map (answered env) its)))"
    by simp
  then show "length (processedItems s) = length its" by simp
  have "list_all (\<lambda>g. good_item env db (fst g)) (goroutines s)"
    using inv none fin by (auto simp: fan_inv_def list_all_iff)
  then have "list_all (good_item env db) (map fst (goroutines s))"
    by (simp add: list_all_iff)
  then show "list_all (good_item env db) its" by (simp only: its)
  have "\<not> list_ex at_failed_fetch (goroutines s)"
    using fin by (auto simp: list_ex_iff list_all_iff at_failed_fetch_def)
  then show "list_all snd (calls s)"
    using inv none by (simp add: fan_inv_def)
  have "map_of (productStockUpdates s) k =
          (if k \<in> ProductID ` set (processedItems s)
           then Some (delta_for k (processedItems s)) else None)"
    using inv by (simp add: fan_inv_def)
  then show "map_of (productStockUpdates s) k =
           (if k \<in> ProductID ` set (map (answered env) its)
            then Some (delta_for k (map (answered env) its)) else None)"
    using line_mset_delta [OF m] by simp
  show "failed s = []"
    using inv none by (auto simp: fan_inv_def split: list.splits)
qed

section \<open>The commit loop and the order of the map\<close>

lemma client_UpdateStock_Inl:
  "client_UpdateStock env n db k d = (Inl err, db') \<Longrightarrow> db' = db"
  by (auto simp: client_UpdateStock_def Service_UpdateStock_def UpdateStock_def Let_def
           split: option.splits if_splits prod.splits sum.splits)

lemma client_UpdateStock_Inr:
  "client_UpdateStock env n db k d = (Inr p, db') \<Longrightarrow>
     \<exists>key row. product_uuid env k = Some key \<and> db key = Some row
       \<and> db' = db(key \<mapsto> row\<lparr>StockQuantity := StockQuantity row + d,
                                 UpdatedAt := time_Now env n 0\<rparr>)"
  by (auto simp: client_UpdateStock_def Service_UpdateStock_def UpdateStock_def Let_def
           split: option.splits if_splits prod.splits sum.splits)

lemma client_UpdateStock_stock:
  "client_UpdateStock env n db k d = (Inr p, db') \<Longrightarrow>
     stock_of db' pid
       = map_option (\<lambda>s. s + (if product_uuid env k = Some pid then d else 0)) (stock_of db pid)
     \<and> map_option Price (db' pid) = map_option Price (db pid)"
  by (drule client_UpdateStock_Inr) (auto simp: stock_of_def option.map_ident)

lemma commit_spec:
  "commit env xs db tr = (r, db', tr') \<Longrightarrow>
     \<exists>n. n \<le> length xs
       \<and> tr' = tr @ map ok_call (take n xs)
                  @ (case r of None \<Rightarrow> [] | Some e \<Rightarrow> [failed_call (xs ! n)])
       \<and> (case r of
             None \<Rightarrow> n = length xs
           | Some e \<Rightarrow> n < length xs \<and> (\<exists>err. e = ErrProductStockUpdateFailed (fst (xs ! n)) err))
       \<and> (\<forall>pid. stock_of db' pid =
             map_option (\<lambda>s. s + sum_list (map snd (filter (\<lambda>kv. product_uuid env (fst kv) = Some pid)
                                                      (take n xs))))
               (stock_of db pid))
       \<and> (\<forall>pid. map_option Price (db' pid) = map_option Price (db pid))"
proof (induction xs arbitrary: db tr)
  case Nil
  then show ?case by (auto simp: option.map_ident)
next
  case (Cons kv xs)
  obtain k d where kv: "kv = (k, d)" by (cases kv)
  obtain res db1 where c: "client_UpdateStock env (length tr) db k d = (res, db1)"
    by (cases "client_UpdateStock env (length tr) db k d")
  show ?case
  proof (cases res)
    case (Inl err)
    with Cons.prems kv c have "r = Some (ErrProductStockUpdateFailed k err)" "db' = db1"
      "tr' = tr @ [(UpdateStockCall k d, False)]"
      by simp_all
    moreover have "db1 = db" using c Inl by (auto dest: client_UpdateStock_Inl)
    ultimately show ?thesis
      using kv by (intro exI [of _ 0]) (simp add: failed_call_def option.map_ident)
  next
    case (Inr p)
    with Cons.prems kv c
    have rest: "commit env xs db1 (tr @ [(UpdateStockCall k d, True)]) = (r, db', tr')"
      by simp
    from Cons.IH [OF rest] obtain n where n: "n \<le> length xs"
      and tr': "tr' = (tr @ [(UpdateStockCall k d, True)]) @ map ok_call (take n xs)
                  @ (case r of None \<Rightarrow> [] | Some e \<Rightarrow> [failed_call (xs ! n)])"
      and r: "(case r of
             None \<Rightarrow> n = length xs
           | Some e \<Rightarrow> n < length xs \<and> (\<exists>err. e = ErrProductStockUpdateFailed (fst (xs ! n)) err))"
      and st: "\<And>pid. stock_of db' pid =
             map_option (\<lambda>s. s + sum_list (map snd (filter (\<lambda>kv. product_uuid env (fst kv) = Some pid)
                                                      (take n xs))))
               (stock_of db1 pid)"
      and pr: "\<And>pid. map_option Price (db' pid) = map_option Price (db1 pid)"
      by blast
    have s1: "stock_of db1 pid
                = map_option (\<lambda>s. s + (if product_uuid env k = Some pid then d else 0))
                    (stock_of db pid)"
      and p1: "map_option Price (db1 pid) = map_option Price (db pid)" for pid
      using client_UpdateStock_stock [of env "length tr" db k d p db1 pid] c Inr by simp_all
    have st': "stock_of db' pid =
             map_option (\<lambda>s. s + sum_list (map snd (filter (\<lambda>kv. product_uuid env (fst kv) = Some pid)
                                                      (take (Suc n) (kv # xs)))))
               (stock_of db pid)" for pid
      unfolding st s1 using kv
      by (cases "stock_of db pid") (simp_all add: add.assoc)
    show ?thesis
      apply (rule exI [of _ "Suc n"])
      using n tr' r st' pr p1 kv
      by (auto simp: ok_call_def split: option.splits)
  qed
qed

lemma commits_for_append:
  "commits_for pid (a @ b) = commits_for pid a @ commits_for pid b"
  by (induction pid a rule: commits_for.induct) simp_all

lemma commits_for_no_commit:
  "list_all (\<lambda>c. \<not> is_UpdateStock c) tr \<Longrightarrow> commits_for pid tr = []"
  by (induction pid tr rule: commits_for.induct) simp_all

lemma commits_for_ok_calls:
  "commits_for pid (map ok_call xs) = map snd (filter (\<lambda>kv. fst kv = pid) xs)"
  by (induction xs) (simp_all add: ok_call_def)

lemma filter_snd_ok_calls: "filter snd (map ok_call xs) = map ok_call xs"
  by (induction xs) (simp_all add: ok_call_def)

lemma snd_ok_calls: "list_all snd (map ok_call xs)"
  by (induction xs) (simp_all add: ok_call_def)

lemma distinct_keys_lookup:
  "distinct (map fst xs) \<Longrightarrow>
     map snd (filter (\<lambda>kv. fst kv = pid) xs) = (case map_of xs pid of None \<Rightarrow> [] | Some d \<Rightarrow> [d])"
proof (induction xs)
  case Nil
  then show ?case by simp
next
  case (Cons kv xs)
  show ?case
  proof (cases "fst kv = pid")
    case True
    with Cons.prems have "pid \<notin> fst ` set xs" by auto
    then have "filter (\<lambda>kv. fst kv = pid) xs = []"
      by (auto simp: filter_empty_conv)
    with True show ?thesis by (cases kv) simp
  next
    case False
    with Cons show ?thesis by (cases kv) auto
  qed
qed

lemma map_of_take:
  "map_of (take n xs) k = Some d \<Longrightarrow> map_of xs k = Some d"
proof -
  assume a: "map_of (take n xs) k = Some d"
  have "map_of xs = map_of (take n xs @ drop n xs)" by simp
  also have "\<dots> = map_of (drop n xs) ++ map_of (take n xs)" by (rule map_of_append)
  finally show ?thesis using a by (simp add: map_add_def)
qed

lemma distinct_keys_prefix:
  assumes "distinct (map fst xs)"
  shows "map snd (filter (\<lambda>kv. fst kv = pid) (take n xs)) = []
       \<or> (\<exists>d. map_of xs pid = Some d \<and> map snd (filter (\<lambda>kv. fst kv = pid) (take n xs)) = [d])"
proof -
  have "distinct (map fst (take n xs))"
    using assms by (simp add: take_map [symmetric] distinct_take)
  then have "map snd (filter (\<lambda>kv. fst kv = pid) (take n xs))
               = (case map_of (take n xs) pid of None \<Rightarrow> [] | Some d \<Rightarrow> [d])"
    by (rule distinct_keys_lookup)
  then show ?thesis
    by (cases "map_of (take n xs) pid") (auto dest: map_of_take)
qed

lemma mset_concat_filter:
  "distinct ds \<Longrightarrow>
     mset (concat (map (\<lambda>k. filter (\<lambda>kv. fst kv = k) m) ds))
       = filter_mset (\<lambda>kv. fst kv \<in> set ds) (mset m)"
proof (induction ds)
  case Nil
  then show ?case by simp
next
  case (Cons d ds)
  have "filter_mset (\<lambda>kv. fst kv \<in> set (d # ds)) (mset m)
          = filter_mset (\<lambda>kv. fst kv = d) (mset m) + filter_mset (\<lambda>kv. fst kv \<in> set ds) (mset m)"
    using Cons.prems by (intro multiset_eqI) auto
  with Cons show ?case by simp
qed

lemma mset_map_range: "mset (map_range order m) = mset m"
proof -
  have "mset (map_range order m)
          = filter_mset (\<lambda>kv. fst kv \<in> set order) (mset m)
              + filter_mset (\<lambda>kv. fst kv \<notin> set order) (mset m)"
    by (simp add: map_range_def mset_concat_filter)
  then show ?thesis by (simp only: multiset_partition [symmetric])
qed

lemma map_range_keys:
  assumes "distinct (map fst m)"
  shows "distinct (map fst (map_range order m))" and "map_of (map_range order m) = map_of m"
proof -
  have "mset (map fst (map_range order m)) = mset (map fst m)"
    using mset_map_range [of order m] by (metis mset_map)
  then show d: "distinct (map fst (map_range order m))"
    using assms by (metis mset_eq_imp_distinct_iff)
  have "set (map_range order m) = set m"
    using mset_map_range [of order m] by (metis set_mset_mset)
  with d assms show "map_of (map_range order m) = map_of m"
    by (simp add: map_of_inject_set)
qed

lemma filter_eq_singleton:
  "distinct m \<Longrightarrow> x \<in> set m \<Longrightarrow> filter (\<lambda>y. y = x) m = [x]"
  by (induction m) (auto simp: filter_empty_conv)

lemma concat_singletons: "(\<And>x. x \<in> set xs \<Longrightarrow> f x = [x]) \<Longrightarrow> concat (map f xs) = xs"
  by (induction xs) simp_all

lemma map_range_any_order:
  assumes "distinct (map fst m)" and "mset xs = mset m"
  shows "map_range (map fst xs) m = xs"
proof -
  have dx: "distinct (map fst xs)"
    using assms by (metis mset_eq_imp_distinct_iff mset_map)
  have sx: "set xs = set m" using assms(2) by (metis set_mset_mset)
  have one: "filter (\<lambda>kv. fst kv = fst x) m = [x]" if "x \<in> set m" for x
  proof -
    have "\<And>y. y \<in> set m \<Longrightarrow> fst y = fst x \<Longrightarrow> y = x"
      using assms(1) that by (auto simp: distinct_map inj_on_def)
    then have "filter (\<lambda>kv. fst kv = fst x) m = filter (\<lambda>kv. kv = x) m"
      by (intro filter_cong) auto
    moreover have "distinct m" using assms(1) by (simp add: distinct_map)
    ultimately show ?thesis using that
      by (simp add: filter_eq_singleton)
  qed
  have "concat (map (\<lambda>x. filter (\<lambda>kv. fst kv = fst x) m) xs) = xs"
    using one sx by (intro concat_singletons) simp
  then have "concat (map (\<lambda>k. filter (\<lambda>kv. fst kv = k) m) (map fst xs)) = xs"
    by (simp add: comp_def)
  moreover have "filter (\<lambda>kv. fst kv \<notin> set (map fst xs)) m = []"
    using sx by (auto simp: filter_empty_conv)
  ultimately show ?thesis
    using dx by (simp add: map_range_def distinct_remdups_id)
qed

section \<open>The phases of \<^verbatim>\<open>CreateOrder\<close>\<close>

lemma is_GetProduct_reads:
  "is_GetProduct c \<Longrightarrow> \<not> is_UpdateStock c \<and> \<not> is_RepoCreateOrder c"
  by (cases c rule: is_GetProduct.cases) simp_all

lemma fan_inv_calls:
  assumes "fan_inv env db u its s"
  shows "calls s = (GetUserCall u, True) # tl (calls s)"
    and "list_all is_GetProduct (tl (calls s))"
    and "list_all (\<lambda>c. \<not> is_UpdateStock c \<and> \<not> is_RepoCreateOrder c) (calls s)"
    and "commits_for pid (calls s) = []"
proof -
  show c: "calls s = (GetUserCall u, True) # tl (calls s)"
    and g: "list_all is_GetProduct (tl (calls s))"
    using assms by (simp_all add: fan_inv_def)
  have "list_all (\<lambda>c. \<not> is_UpdateStock c \<and> \<not> is_RepoCreateOrder c) (tl (calls s))"
    using g by (auto simp: list_all_iff dest: is_GetProduct_reads)
  then have "list_all (\<lambda>c. \<not> is_UpdateStock c \<and> \<not> is_RepoCreateOrder c)
               ((GetUserCall u, True) # tl (calls s))"
    by simp
  then show r: "list_all (\<lambda>c. \<not> is_UpdateStock c \<and> \<not> is_RepoCreateOrder c) (calls s)"
    using c by simp
  then have "list_all (\<lambda>c. \<not> is_UpdateStock c) (calls s)"
    by (simp add: list_all_iff)
  then show "commits_for pid (calls s) = []"
    by (rule commits_for_no_commit)
qed

lemma fan_inv_failed:
  assumes "fan_inv env db u its s"
  shows "firstError s = (case failed s of [] \<Rightarrow> None | e # _ \<Rightarrow> Some e)"
    and "list_all (read_failure env db its) (failed s)"
  using assms by (simp_all add: fan_inv_def)

lemma CreateOrder_invalid:
  "userID = [] \<or> requestedItems = [] \<Longrightarrow>
     CreateOrder env db orders userID requestedItems =
       \<lparr>result = Inl ErrInvalidOrderData, trace = [], catalog = db, stored = orders,
        started = 0, read_failures = []\<rparr>"
  by (simp add: CreateOrder_def)

lemma CreateOrder_user_failed:
  "userID \<noteq> [] \<Longrightarrow> requestedItems \<noteq> [] \<Longrightarrow> GetUser env userID = Some err \<Longrightarrow>
     CreateOrder env db orders userID requestedItems =
       \<lparr>result = Inl (ErrUserValidationFailed (wrap_cause userID err)),
        trace = [(GetUserCall userID, False)], catalog = db, stored = orders,
        started = 0, read_failures = []\<rparr>"
  by (simp add: CreateOrder_def)

lemma CreateOrder_early_return:
  assumes "userID \<noteq> []" "requestedItems \<noteq> []" "GetUser env userID = None"
    and "snd (launch requestedItems) = Some e"
  shows "CreateOrder env db orders userID requestedItems =
           \<lparr>result = Inl e,
            trace = calls (run env db (schedule env)
                             (fanout_init userID (fst (launch requestedItems)))),
            catalog = db, stored = orders,
            started = length (fst (launch requestedItems)),
            read_failures = failed (run env db (schedule env)
                             (fanout_init userID (fst (launch requestedItems))))\<rparr>"
  using assms by (simp add: CreateOrder_def Let_def fanout_init_def)

lemma CreateOrder_read_failed:
  assumes "userID \<noteq> []" "requestedItems \<noteq> []" "GetUser env userID = None"
    and "snd (launch requestedItems) = None"
    and "firstError (wait env db (run env db (schedule env)
                       (fanout_init userID requestedItems))) = Some e"
  shows "CreateOrder env db orders userID requestedItems =
           \<lparr>result = Inl e,
            trace = calls (wait env db (run env db (schedule env)
                       (fanout_init userID requestedItems))),
            catalog = db, stored = orders,
            started = length requestedItems,
            read_failures = failed (wait env db (run env db (schedule env)
                       (fanout_init userID requestedItems)))\<rparr>"
  using assms launch_None [OF assms(4)] fanout_joined(3) [of env db "schedule env" userID requestedItems]
  by (simp add: CreateOrder_def Let_def)

lemma CreateOrder_commit_failed:
  assumes "userID \<noteq> []" "requestedItems \<noteq> []" "GetUser env userID = None"
    and "snd (launch requestedItems) = None"
    and "firstError (wait env db (run env db (schedule env)
                       (fanout_init userID requestedItems))) = None"
    and "commit env (map_range (range_order env)
           (productStockUpdates (wait env db (run env db (schedule env)
                       (fanout_init userID requestedItems)))))
           db (calls (wait env db (run env db (schedule env)
                       (fanout_init userID requestedItems)))) = (Some e, db', tr)"
  shows "CreateOrder env db orders userID requestedItems =
           \<lparr>result = Inl e, trace = tr, catalog = db', stored = orders,
            started = length requestedItems, read_failures = []\<rparr>"
  using assms launch_None [OF assms(4)]
    fanout_joined(3) [of env db "schedule env" userID requestedItems]
    fanout_no_error(2,6) [OF assms(5)]
  by (simp add: CreateOrder_def Let_def)

lemma CreateOrder_committed:
  assumes "userID \<noteq> []" "requestedItems \<noteq> []" "GetUser env userID = None"
    and "snd (launch requestedItems) = None"
    and "firstError (wait env db (run env db (schedule env)
                       (fanout_init userID requestedItems))) = None"
    and "commit env (map_range (range_order env)
           (productStockUpdates (wait env db (run env db (schedule env)
                       (fanout_init userID requestedItems)))))
           db (calls (wait env db (run env db (schedule env)
                       (fanout_init userID requestedItems)))) = (None, db', tr)"
    and "repo_CreateOrder (db_fault env (length tr)) (uuid_New env (length tr))
           (time_Now env (length tr)) orders
           \<lparr>ID = [], UserID = userID,
            Items = processedItems (wait env db (run env db (schedule env)
                       (fanout_init userID requestedItems))),
            TotalAmount = totalAmount (wait env db (run env db (schedule env)
                       (fanout_init userID requestedItems))),
            Status = StatusPending, OrderCreatedAt = 0, OrderUpdatedAt = 0\<rparr> = (r, orders')"
  shows "CreateOrder env db orders userID requestedItems =
           \<lparr>result = r, trace = tr @ [(RepoCreateOrderCall, \<not> isl r)],
            catalog = db', stored = orders',
            started = length requestedItems, read_failures = []\<rparr>"
  using assms launch_None [OF assms(4)]
    fanout_joined(3) [of env db "schedule env" userID requestedItems]
    fanout_no_error(2,6) [OF assms(5)]
  by (cases r) (simp_all add: CreateOrder_def Let_def)

lemma CreateOrder_cases [case_names invalid user_failed early_return read_failed
    commit_failed committed]:
  fixes env :: "'p::{zero,plus,times} env"
  obtains
    (invalid) "userID = [] \<or> requestedItems = []"
  | (user_failed) err where "userID \<noteq> []" "requestedItems \<noteq> []" "GetUser env userID = Some err"
  | (early_return) e where "userID \<noteq> []" "requestedItems \<noteq> []" "GetUser env userID = None"
      "snd (launch requestedItems) = Some e"
  | (read_failed) e where "userID \<noteq> []" "requestedItems \<noteq> []" "GetUser env userID = None"
      "snd (launch requestedItems) = None"
      "firstError (joined env db userID requestedItems) = Some e"
  | (commit_failed) e db' tr where "userID \<noteq> []" "requestedItems \<noteq> []"
      "GetUser env userID = None" "snd (launch requestedItems) = None"
      "firstError (joined env db userID requestedItems) = None"
      "commit env (map_range (range_order env)
           (productStockUpdates (joined env db userID requestedItems)))
           db (calls (joined env db userID requestedItems)) = (Some e, db', tr)"
  | (committed) db' tr r orders' where "userID \<noteq> []" "requestedItems \<noteq> []"
      "GetUser env userID = None" "snd (launch requestedItems) = None"
      "firstError (joined env db userID requestedItems) = None"
      "commit env (map_range (range_order env)
           (productStockUpdates (joined env db userID requestedItems)))
           db (calls (joined env db userID requestedItems)) = (None, db', tr)"
      "repo_CreateOrder (db_fault env (length tr)) (uuid_New env (length tr))
           (time_Now env (length tr)) orders
           \<lparr>ID = [], UserID = userID,
            Items = processedItems (joined env db userID requestedItems),
            TotalAmount = totalAmount (joined env db userID requestedItems),
            Status = StatusPending, OrderCreatedAt = 0, OrderUpdatedAt = 0\<rparr> = (r, orders')"
proof (cases "userID = [] \<or> requestedItems = []")
  case True
  then show ?thesis by (rule invalid)
next
  case valid: False
  show ?thesis
  proof (cases "GetUser env userID")
    case (Some err)
    with valid show ?thesis by (intro user_failed) simp_all
  next
    case user: None
    show ?thesis
    proof (cases "snd (launch requestedItems)")
      case (Some e)
      with valid user show ?thesis by (intro early_return) simp_all
    next
      case launched: None
      show ?thesis
      proof (cases "firstError (joined env db userID requestedItems)")
        case (Some e)
        with valid user launched show ?thesis by (intro read_failed) simp_all
      next
        case none: None
        obtain r db' tr where c: "commit env (map_range (range_order env)
           (productStockUpdates (joined env db userID requestedItems)))
           db (calls (joined env db userID requestedItems)) = (r, db', tr)"
          by (metis prod_cases3)
        show ?thesis
        proof (cases r)
          case (Some e)
          with valid user launched none c show ?thesis by (intro commit_failed) simp_all
        next
          case None
          obtain r' orders' where "repo_CreateOrder (db_fault env (length tr))
             (uuid_New env (length tr)) (time_Now env (length tr)) orders
             \<lparr>ID = [], UserID = userID,
              Items = processedItems (joined env db userID requestedItems),
              TotalAmount = totalAmount (joined env db userID requestedItems),
              Status = StatusPending, OrderCreatedAt = 0, OrderUpdatedAt = 0\<rparr> = (r', orders')"
            by (metis surj_pair)
          with valid user launched none c None show ?thesis by (intro committed) simp_all
        qed
      qed
    qed
  qed
qed

text \<open>
  Claim C6.  When the validator's call fails, \<^verbatim>\<open>CreateOrder\<close> fails with
  \<^verbatim>\<open>ErrUserValidationFailed\<close> wrapping the cause (that the user was not found, or the
  client's error), and the validator's call is the only call it issued: no product is
  fetched.  In any call at all, a trace that holds a \<^verbatim>\<open>GetProduct\<close> call starts with the
  validator's call, which succeeded.
\<close>

theorem validation_precedes_fetch:
  fixes env :: "'p::{zero,plus,times} env" and db orders userID requestedItems
  defines "out \<equiv> CreateOrder env db orders userID requestedItems"
  shows "(userID \<noteq> [] \<and> requestedItems \<noteq> [] \<and> GetUser env userID = Some err \<longrightarrow>
            result out = Inl (ErrUserValidationFailed
                          (if err = StatusError NotFound then NotFoundCause userID
                           else RpcCause err))
          \<and> trace out = [(GetUserCall userID, False)]
          \<and> filter is_GetProduct (trace out) = []
          \<and> started out = 0 \<and> catalog out = db \<and> stored out = orders)
       \<and> (list_ex is_GetProduct (trace out) \<longrightarrow>
            GetUser env userID = None
          \<and> trace out = (GetUserCall userID, True) # tl (trace out))"
proof (intro conjI impI)
  assume a: "userID \<noteq> [] \<and> requestedItems \<noteq> [] \<and> GetUser env userID = Some err"
  then have o: "out = \<lparr>result = Inl (ErrUserValidationFailed (wrap_cause userID err)),
        trace = [(GetUserCall userID, False)], catalog = db, stored = orders,
        started = 0, read_failures = []\<rparr>"
    unfolding out_def by (intro CreateOrder_user_failed) simp_all
  show "result out = Inl (ErrUserValidationFailed
                          (if err = StatusError NotFound then NotFoundCause userID
                           else RpcCause err))"
    and "trace out = [(GetUserCall userID, False)]"
    and "filter is_GetProduct (trace out) = []"
    and "started out = 0" and "catalog out = db" and "stored out = orders"
    by (simp_all add: o wrap_cause_def)
next
  assume g: "list_ex is_GetProduct (trace out)"
  have "GetUser env userID = None \<and> trace out = (GetUserCall userID, True) # tl (trace out)"
  proof (cases rule: CreateOrder_cases [where userID = userID
      and requestedItems = requestedItems and env = env and db = db and orders = orders])
    case invalid
    with g show ?thesis by (simp add: out_def CreateOrder_invalid)
  next
    case (user_failed err)
    with g show ?thesis by (simp add: out_def CreateOrder_user_failed)
  next
    case (early_return e)
    have "fan_inv env db userID (fst (launch requestedItems))
            (run env db (schedule env) (fanout_init userID (fst (launch requestedItems))))"
      by (intro run_preserves fan_inv_init)
    from fan_inv_calls(1) [OF this] early_return show ?thesis
      by (simp add: out_def CreateOrder_early_return)
  next
    case (read_failed e)
    from fan_inv_calls(1) [OF fanout_joined(1)] read_failed show ?thesis
      by (simp add: out_def CreateOrder_read_failed)
  next
    case (commit_failed e db' tr)
    from commit_spec [OF commit_failed(6)] obtain rest where
      "tr = calls (joined env db userID requestedItems) @ rest" by blast
    moreover have "calls (joined env db userID requestedItems)
        = (GetUserCall userID, True) # tl (calls (joined env db userID requestedItems))"
      by (rule fan_inv_calls(1) [OF fanout_joined(1)])
    ultimately have "tr = (GetUserCall userID, True) # tl tr"
      by (metis append_Cons list.sel(3))
    with commit_failed show ?thesis
      by (simp add: out_def CreateOrder_commit_failed)
  next
    case (committed db' tr r orders')
    from commit_spec [OF committed(6)] obtain rest where
      "tr = calls (joined env db userID requestedItems) @ rest" by blast
    moreover have "calls (joined env db userID requestedItems)
        = (GetUserCall userID, True) # tl (calls (joined env db userID requestedItems))"
      by (rule fan_inv_calls(1) [OF fanout_joined(1)])
    ultimately have "tr @ [(RepoCreateOrderCall, \<not> isl r)]
         = (GetUserCall userID, True) # tl (tr @ [(RepoCreateOrderCall, \<not> isl r)])"
      by (metis append_Cons list.sel(3))
    with committed show ?thesis
      by (simp add: out_def CreateOrder_committed)
  qed
  then show "GetUser env userID = None"
    and "trace out = (GetUserCall userID, True) # tl (trace out)" by simp_all
qed

theorem validation_precedes_fetch_witness:
  "GetUser example_env ''bob'' = Some (StatusError NotFound)
   \<and> result (CreateOrder example_env example_db [] ''bob'' [requested ''P1'' 1])
       = Inl (ErrUserValidationFailed (NotFoundCause ''bob''))
   \<and> trace (CreateOrder example_env example_db [] ''bob'' [requested ''P1'' 1])
       = [(GetUserCall ''bob'', False)]
   \<and> list_ex is_GetProduct
        (trace (CreateOrder example_env example_db [] ''alice'' [requested ''P1'' 1]))
   \<and> GetUser example_env ''alice'' = None
   \<and> hd (trace (CreateOrder example_env example_db [] ''alice'' [requested ''P1'' 1]))
       = (GetUserCall ''alice'', True)"
proof -
  have b: "GetUser example_env ''bob'' = Some (StatusError NotFound)"
    by (simp add: example_env_def)
  have g: "list_ex is_GetProduct
        (trace (CreateOrder example_env example_db [] ''alice'' [requested ''P1'' 1]))"
    by code_simp
  have n: "[requested ''P1'' 1] \<noteq> ([] :: int OrderItem list)" by simp
  note bob = validation_precedes_fetch [of "''bob''" "[requested ''P1'' 1]" example_env
                "StatusError NotFound" example_db "[]"]
  note alice = validation_precedes_fetch [of "''alice''" "[requested ''P1'' 1]" example_env
                "StatusError NotFound" example_db "[]"]
  from alice g have "GetUser example_env ''alice'' = None"
    and "trace (CreateOrder example_env example_db [] ''alice'' [requested ''P1'' 1])
          = (GetUserCall ''alice'', True)
              # tl (trace (CreateOrder example_env example_db [] ''alice'' [requested ''P1'' 1]))"
    by blast+
  then have "GetUser example_env ''alice'' = None"
    and "hd (trace (CreateOrder example_env example_db [] ''alice'' [requested ''P1'' 1]))
          = (GetUserCall ''alice'', True)"
    by (simp, metis list.sel(1))
  with bob b g n show ?thesis by simp
qed

lemma read_failure_kind: "read_failure env db its e \<Longrightarrow> is_read_error e"
  by (auto simp: read_failure_def)

lemma read_error_not_invalid: "is_read_error e \<Longrightarrow> \<not> is_InvalidOrderData e"
  by (cases e) simp_all

lemma repo_CreateOrder_error:
  "repo_CreateOrder fault uuid now orders order = (Inl e, orders') \<Longrightarrow>
     (\<exists>st. e = ErrRepository st) \<and> orders' = orders"
  by (auto simp: repo_CreateOrder_def Let_def split: if_splits)

lemma early_return_state:
  fixes env :: "'p::{zero,plus,times} env"
  shows "fan_inv env db userID (fst (launch requestedItems))
            (run env db (schedule env) (fanout_init userID (fst (launch requestedItems))))"
  by (intro run_preserves fan_inv_init)

text \<open>
  Claim C5, as amended.  An empty user identifier or an empty list of items fails with
  \<^verbatim>\<open>ErrInvalidOrderData\<close> before any call is issued.  A quantity that is not positive is
  found only after the validator was called and answered: the call then fails with an
  error that wraps \<^verbatim>\<open>ErrInvalidOrderData\<close>, the validator's call is the first of its
  trace, and no stock-commit call and no store call is issued, so the product table and
  the stored orders are as before.  \<^verbatim>\<open>CreateOrder\<close> does not look at the product
  identifiers: with a user identifier, at least one item and positive quantities, it
  never fails with \<^verbatim>\<open>ErrInvalidOrderData\<close>.
\<close>

theorem invalid_input_checks:
  fixes env :: "'p::{zero,plus,times} env" and db orders userID requestedItems
  defines "out \<equiv> CreateOrder env db orders userID requestedItems"
  shows "(userID = [] \<or> requestedItems = [] \<longrightarrow>
            result out = Inl ErrInvalidOrderData \<and> trace out = []
          \<and> catalog out = db \<and> stored out = orders)
       \<and> (userID \<noteq> [] \<and> requestedItems \<noteq> [] \<and> GetUser env userID = None
          \<and> \<not> list_all (\<lambda>item. 0 < sint (Quantity item)) requestedItems \<longrightarrow>
            (\<exists>e. result out = Inl e \<and> is_InvalidOrderData e)
          \<and> trace out = (GetUserCall userID, True) # tl (trace out)
          \<and> list_all (\<lambda>c. \<not> is_UpdateStock c \<and> \<not> is_RepoCreateOrder c) (trace out)
          \<and> catalog out = db \<and> stored out = orders)
       \<and> (userID \<noteq> [] \<and> requestedItems \<noteq> []
          \<and> list_all (\<lambda>item. 0 < sint (Quantity item)) requestedItems \<longrightarrow>
            (\<forall>e. result out = Inl e \<longrightarrow> \<not> is_InvalidOrderData e))"
proof (intro conjI impI)
  assume "userID = [] \<or> requestedItems = []"
  then have "out = \<lparr>result = Inl ErrInvalidOrderData, trace = [], catalog = db,
                     stored = orders, started = 0, read_failures = []\<rparr>"
    unfolding out_def by (rule CreateOrder_invalid)
  then show "result out = Inl ErrInvalidOrderData" "trace out = []" "catalog out = db"
    "stored out = orders" by simp_all
next
  assume a: "userID \<noteq> [] \<and> requestedItems \<noteq> [] \<and> GetUser env userID = None
          \<and> \<not> list_all (\<lambda>item. 0 < sint (Quantity item)) requestedItems"
  then obtain e where e: "snd (launch requestedItems) = Some e"
    using launch_not_positive by blast
  have o: "out = \<lparr>result = Inl e,
            trace = calls (run env db (schedule env)
                             (fanout_init userID (fst (launch requestedItems)))),
            catalog = db, stored = orders,
            started = length (fst (launch requestedItems)),
            read_failures = failed (run env db (schedule env)
                             (fanout_init userID (fst (launch requestedItems))))\<rparr>"
    unfolding out_def using a e by (intro CreateOrder_early_return) simp_all
  note c = fan_inv_calls [OF early_return_state [of env db userID requestedItems]]
  show "\<exists>e. result out = Inl e \<and> is_InvalidOrderData e"
    using launch_Some [OF e] by (simp add: o)
  show "trace out = (GetUserCall userID, True) # tl (trace out)"
    using c(1) by (simp add: o)
  show "list_all (\<lambda>c. \<not> is_UpdateStock c \<and> \<not> is_RepoCreateOrder c) (trace out)"
    using c(3) by (simp add: o)
  show "catalog out = db" "stored out = orders" by (simp_all add: o)
next
  assume a: "userID \<noteq> [] \<and> requestedItems \<noteq> []
          \<and> list_all (\<lambda>item. 0 < sint (Quantity item)) requestedItems"
  then have l: "launch requestedItems = (requestedItems, None)"
    by (simp add: launch_all_positive)
  show "\<forall>e. result out = Inl e \<longrightarrow> \<not> is_InvalidOrderData e"
  proof (cases rule: CreateOrder_cases [where userID = userID
      and requestedItems = requestedItems and env = env and db = db and orders = orders])
    case invalid
    with a show ?thesis by simp
  next
    case (user_failed err)
    then show ?thesis by (simp add: out_def CreateOrder_user_failed)
  next
    case (early_return e)
    with l show ?thesis by simp
  next
    case (read_failed e)
    have "list_all (read_failure env db requestedItems)
            (failed (joined env db userID requestedItems))"
      and "firstError (joined env db userID requestedItems)
            = (case failed (joined env db userID requestedItems) of
                 [] \<Rightarrow> None | e # _ \<Rightarrow> Some e)"
      using fan_inv_failed [OF fanout_joined(1)] by blast+
    with read_failed(5) have "read_failure env db requestedItems e"
      by (cases "failed (joined env db userID requestedItems)") simp_all
    then have "\<not> is_InvalidOrderData e"
      by (intro read_error_not_invalid read_failure_kind)
    with read_failed show ?thesis
      by (simp add: out_def CreateOrder_read_failed)
  next
    case (commit_failed e db' tr)
    from commit_spec [OF commit_failed(6)] have "\<not> is_InvalidOrderData e" by auto
    with commit_failed show ?thesis
      by (simp add: out_def CreateOrder_commit_failed)
  next
    case (committed db' tr r orders')
    have "\<not> is_InvalidOrderData e" if "r = Inl e" for e
      using repo_CreateOrder_error committed(7) that by fastforce
    with committed show ?thesis
      by (simp add: out_def CreateOrder_committed)
  qed
qed

theorem invalid_input_checks_witness:
  "result (CreateOrder example_env example_db [] [] [requested ''P1'' 1])
     = Inl ErrInvalidOrderData
   \<and> trace (CreateOrder example_env example_db [] [] [requested ''P1'' 1]) = []
   \<and> (\<exists>e. result (CreateOrder example_env example_db [] ''alice''
                    [requested ''P1'' 1, requested ''P2'' 0]) = Inl e
          \<and> is_InvalidOrderData e)
   \<and> list_all (\<lambda>c. \<not> is_UpdateStock c \<and> \<not> is_RepoCreateOrder c)
        (trace (CreateOrder example_env example_db [] ''alice''
                    [requested ''P1'' 1, requested ''P2'' 0]))
   \<and> (case result (CreateOrder example_env example_db [] ''alice'' [requested [] 1]) of
        Inl e \<Rightarrow> \<not> is_InvalidOrderData e
      | Inr order \<Rightarrow> True)"
proof -
  have u: "GetUser example_env ''alice'' = None"
    by (simp add: example_env_def)
  have q: "\<not> list_all (\<lambda>item. 0 < sint (Quantity item))
             [requested ''P1'' 1, requested ''P2'' 0 :: int OrderItem]"
    and p: "list_all (\<lambda>item. 0 < sint (Quantity item)) [requested [] 1 :: int OrderItem]"
    by (simp_all add: requested_def)
  show ?thesis
    using u q p
      invalid_input_checks [of "[]" "[requested ''P1'' 1]" example_env example_db "[]"]
      invalid_input_checks [of "''alice''" "[requested ''P1'' 1, requested ''P2'' 0]"
                               example_env example_db "[]"]
      invalid_input_checks [of "''alice''" "[requested [] 1]" example_env example_db "[]"]
    by (simp split: sum.splits)
qed

text \<open>
  Against claim C5 as stated: for a validated user and one item of quantity 0, the call
  fails with the error that wraps \<^verbatim>\<open>ErrInvalidOrderData\<close> only after the validator's call
  was issued; and for an item with an empty product identifier and quantity 1 the call
  does not fail with \<^verbatim>\<open>ErrInvalidOrderData\<close> at all: the product is fetched, and the
  failure of the fetch is returned.
\<close>

theorem quantity_checked_after_validation:
  "result (CreateOrder example_env example_db [] ''alice'' [requested ''P1'' 0])
     = Inl (ErrInvalidQuantity ''P1'')
   \<and> trace (CreateOrder example_env example_db [] ''alice'' [requested ''P1'' 0])
     = [(GetUserCall ''alice'', True)]
   \<and> result (CreateOrder example_env example_db [] ''alice'' [requested [] 1])
     = Inl (ErrProductFetchFailed (RpcCause (StatusError InvalidArgument)))
   \<and> trace (CreateOrder example_env example_db [] ''alice'' [requested [] 1])
     = [(GetUserCall ''alice'', True), (GetProductCall [] , False)]"
  by code_simp






text \<open>A task that finds an error recorded does not read: of the two tasks for a
  product that is not in the table, the first runs to its end before the second
  starts, and the second issues no \<^verbatim>\<open>GetProduct\<close> call.\<close>

lemma recorded_error_skips_read:
  "started (CreateOrder (example_env\<lparr>schedule := [0, 0, 0]\<rparr>) example_db [] ''alice''
              [requested ''P9'' 1, requested ''P9'' 1]) = 2
   \<and> trace (CreateOrder (example_env\<lparr>schedule := [0, 0, 0]\<rparr>) example_db [] ''alice''
              [requested ''P9'' 1, requested ''P9'' 1])
       = [(GetUserCall ''alice'', True), (GetProductCall ''P9'', False)]
   \<and> read_failures (CreateOrder (example_env\<lparr>schedule := [0, 0, 0]\<rparr>) example_db []
              ''alice'' [requested ''P9'' 1, requested ''P9'' 1])
       = [ErrProductFetchFailed (NotFoundCause ''P9'')]"
  by code_simp

text \<open>
  Claim C2, as amended.  In a call that passed the validation of the user and whose
  quantities are all positive, so that every read task was started and waited for: if
  a read task failed, the call returns the first error recorded, every recorded error
  is the failure of a read for a requested item (the product could not be fetched, or
  its stock is less than the quantity of that item), no stock-commit call was issued,
  and the product table and the stored orders are as before.  A requested item whose
  product is not in the table, or whose quantity exceeds the stock, makes a read task
  fail.
\<close>

theorem read_failure_aborts_before_commit:
  fixes env :: "'p::{zero,plus,times} env" and db orders userID requestedItems
  defines "out \<equiv> CreateOrder env db orders userID requestedItems"
  assumes "userID \<noteq> []" and "requestedItems \<noteq> []" and "GetUser env userID = None"
    and "list_all (\<lambda>item. 0 < sint (Quantity item)) requestedItems"
  shows "(read_failures out \<noteq> [] \<longrightarrow>
            result out = Inl (hd (read_failures out))
          \<and> list_all (read_failure env db requestedItems) (read_failures out)
          \<and> filter is_UpdateStock (trace out) = []
          \<and> catalog out = db \<and> stored out = orders)
       \<and> (\<not> list_all (good_item env db) requestedItems \<longrightarrow> read_failures out \<noteq> [])"
proof -
  have l: "launch requestedItems = (requestedItems, None)"
    using assms(5) by (rule launch_all_positive)
  let ?s = "joined env db userID requestedItems"
  have inv: "fan_inv env db userID requestedItems ?s"
    by (rule fanout_joined(1))
  note f = fan_inv_failed [OF inv]
  note c = fan_inv_calls [OF inv]
  show ?thesis
  proof (cases "firstError ?s")
    case None
    then have good: "list_all (good_item env db) requestedItems" and nf: "failed ?s = []"
      by (rule fanout_no_error)+
    have "read_failures out = []"
    proof (cases rule: CreateOrder_cases [where userID = userID
      and requestedItems = requestedItems and env = env and db = db and orders = orders])
      case invalid
      with assms show ?thesis by simp
    next
      case (user_failed err)
      with assms show ?thesis by simp
    next
      case (early_return e)
      with l show ?thesis by simp
    next
      case (read_failed e)
      with None show ?thesis by simp
    next
      case (commit_failed e db' tr)
      then show ?thesis by (simp add: out_def CreateOrder_commit_failed)
    next
      case (committed db' tr r orders')
      then show ?thesis by (simp add: out_def CreateOrder_committed)
    qed
    with good show ?thesis by simp
  next
    case (Some e)
    have o: "out = \<lparr>result = Inl e, trace = calls ?s, catalog = db, stored = orders,
            started = length requestedItems, read_failures = failed ?s\<rparr>"
      unfolding out_def using assms(2-4) l Some by (intro CreateOrder_read_failed) simp_all
    from f(1) Some have h: "failed ?s \<noteq> []" "hd (failed ?s) = e"
      by (cases "failed ?s"; simp)+
    have "list_all (\<lambda>c. \<not> is_UpdateStock c) (calls ?s)"
      using c(3) by (simp add: list_all_iff)
    then have "filter is_UpdateStock (calls ?s) = []"
      by (simp add: list_all_iff filter_empty_conv)
    with h f(2) show ?thesis by (simp add: o)
  qed
qed

theorem read_failure_aborts_before_commit_witness:
  "GetUser example_env ''alice'' = None
   \<and> list_all (\<lambda>item. 0 < sint (Quantity item)) [requested ''P1'' 100 :: int OrderItem]
   \<and> \<not> list_all (good_item example_env example_db) [requested ''P1'' 100]
   \<and> read_failures (CreateOrder example_env example_db [] ''alice'' [requested ''P1'' 100])
       = [ErrInsufficientStockForOrder ''P1'' 100 5]
   \<and> result (CreateOrder example_env example_db [] ''alice'' [requested ''P1'' 100])
       = Inl (ErrInsufficientStockForOrder ''P1'' 100 5)
   \<and> filter is_UpdateStock
        (trace (CreateOrder example_env example_db [] ''alice'' [requested ''P1'' 100])) = []
   \<and> catalog (CreateOrder example_env example_db [] ''alice'' [requested ''P1'' 100])
       = example_db"
proof -
  have u: "GetUser example_env ''alice'' = None"
    by (simp add: example_env_def)
  have p: "list_all (\<lambda>item. 0 < sint (Quantity item)) [requested ''P1'' 100 :: int OrderItem]"
    by (simp add: requested_def)
  have g: "\<not> list_all (good_item example_env example_db) [requested ''P1'' 100]"
    by (simp add: good_item_def example_env_def example_db_def example_row_def requested_def)
  have r: "read_failures (CreateOrder example_env example_db [] ''alice'' [requested ''P1'' 100])
       = [ErrInsufficientStockForOrder ''P1'' 100 5]"
    by code_simp
  show ?thesis
    using u p g r
      read_failure_aborts_before_commit [of "''alice''" "[requested ''P1'' 100]"
         example_env example_db "[]"]
    by simp
qed

text \<open>
  Against claim C2 as stated: the first item names a product that is not in the table,
  the second has quantity 0.  The goroutine of the first item runs to its end before
  the loop reaches the second item: its read fails and the failure is recorded, yet the
  call returns the error of the quantity check, not the recorded one.
\<close>

theorem invalid_quantity_hides_read_failure:
  "read_failures (CreateOrder (example_env\<lparr>schedule := [0, 0, 0]\<rparr>) example_db [] ''alice''
                    [requested ''P9'' 1, requested ''P1'' 0])
     = [ErrProductFetchFailed (NotFoundCause ''P9'')]
   \<and> result (CreateOrder (example_env\<lparr>schedule := [0, 0, 0]\<rparr>) example_db [] ''alice''
                    [requested ''P9'' 1, requested ''P1'' 0])
     = Inl (ErrInvalidQuantity ''P1'')
   \<and> trace (CreateOrder (example_env\<lparr>schedule := [0, 0, 0]\<rparr>) example_db [] ''alice''
                    [requested ''P9'' 1, requested ''P1'' 0])
     = [(GetUserCall ''alice'', True), (GetProductCall ''P9'', False)]"
  by code_simp

lemma assign_item_keeps:
  "ProductID (assign_item uuid now oid i item) = ProductID item"
  "Quantity (assign_item uuid now oid i item) = Quantity item"
  "PriceAtPurchase (assign_item uuid now oid i item) = PriceAtPurchase item"
  "line (assign_item uuid now oid i item) = line item"
  "priced db (assign_item uuid now oid i item) = priced db item"
  by (simp_all add: assign_item_def line_def priced_def cong: option.case_cong)

lemma foldl_assigned:
  "foldl (\<lambda>acc item. acc + PriceAtPurchase item * float64 env (Quantity item)) acc
     (map (\<lambda>(i, item). assign_item uuid now oid i item) (enumerate k xs))
   = foldl (\<lambda>acc item. acc + PriceAtPurchase item * float64 env (Quantity item)) acc xs"
  by (induction xs arbitrary: acc k) (simp_all add: assign_item_keeps)

lemma line_total_assigned:
  "line_total env (map (\<lambda>(i, item). assign_item uuid now oid i item) (enumerate k xs))
     = line_total env xs"
  by (simp add: line_total_def foldl_assigned)

lemma lines_assigned:
  "map line (map (\<lambda>(i, item). assign_item uuid now oid i item) (enumerate k xs)) = map line xs"
  by (induction xs arbitrary: k) (simp_all add: assign_item_keeps)

lemma priced_assigned:
  "list_all (priced db) (map (\<lambda>(i, item). assign_item uuid now oid i item) (enumerate k xs))
     = list_all (priced db) xs"
  by (induction xs arbitrary: k) (simp_all add: assign_item_keeps)

lemma repo_CreateOrder_Inr:
  assumes "repo_CreateOrder fault uuid now orders order = (Inr created, orders')"
  shows "Items created =
           map (\<lambda>(i, item). assign_item uuid now (uuid 0) i item) (enumerate 0 (Items order))"
    and "TotalAmount created = TotalAmount order"
    and "UserID created = UserID order"
    and "Status created = (if Status order = [] then StatusPending else Status order)"
    and "orders' = orders @ [created]"
  using assms by (auto simp: repo_CreateOrder_def Let_def split: if_splits)

lemma repo_CreateOrder_created:
  assumes "repo_CreateOrder fault uuid now orders order = (Inr created, orders')"
  shows "TotalAmount created = TotalAmount order"
    and "line_total env (Items created) = line_total env (Items order)"
    and "map line (Items created) = map line (Items order)"
    and "list_all (priced db) (Items created) = list_all (priced db) (Items order)"
    and "UserID created = UserID order"
    and "Status order \<noteq> [] \<Longrightarrow> Status created = Status order"
    and "orders' = orders @ [created]"
proof -
  note c = repo_CreateOrder_Inr [OF assms]
  show "TotalAmount created = TotalAmount order" by (rule c(2))
  show "line_total env (Items created) = line_total env (Items order)"
    unfolding c(1) by (rule line_total_assigned)
  show "map line (Items created) = map line (Items order)"
    unfolding c(1) by (rule lines_assigned)
  show "list_all (priced db) (Items created) = list_all (priced db) (Items order)"
    unfolding c(1) by (rule priced_assigned)
  show "UserID created = UserID order" by (rule c(3))
  show "Status order \<noteq> [] \<Longrightarrow> Status created = Status order" by (simp add: c(4))
  show "orders' = orders @ [created]" by (rule c(5))
qed

text \<open>
  Claim C1.  The order a successful \<^verbatim>\<open>CreateOrder\<close> returns has a total that is the sum,
  over its items in their order, of the price at purchase times the quantity; each
  item carries the price of its product's row in the table the fan-out read; the items
  are the requested lines, each under the key by which the product service answered
  its product; and the order returned is the order stored.
\<close>

theorem total_is_sum_of_lines:
  fixes env :: "'p::{zero,plus,times} env" and db orders userID requestedItems
  defines "out \<equiv> CreateOrder env db orders userID requestedItems"
  assumes ok: "result out = Inr order"
  shows "TotalAmount order = line_total env (Items order)
       \<and> list_all (priced db) (Items order)
       \<and> mset (map line (Items order)) = mset (map line (map (answered env) requestedItems))
       \<and> UserID order = userID \<and> Status order = StatusPending
       \<and> stored out = orders @ [order]"
proof (cases rule: CreateOrder_cases [where userID = userID
      and requestedItems = requestedItems and env = env and db = db and orders = orders])
  case invalid
  with ok show ?thesis by (simp add: out_def CreateOrder_invalid)
next
  case (user_failed err)
  with ok show ?thesis by (simp add: out_def CreateOrder_user_failed)
next
  case (early_return e)
  with ok show ?thesis by (simp add: out_def CreateOrder_early_return)
next
  case (read_failed e)
  with ok show ?thesis by (simp add: out_def CreateOrder_read_failed)
next
  case (commit_failed e db' tr)
  with ok show ?thesis by (simp add: out_def CreateOrder_commit_failed)
next
  case (committed db' tr r orders')
  let ?s = "joined env db userID requestedItems"
  have o: "out = \<lparr>result = r, trace = tr @ [(RepoCreateOrderCall, \<not> isl r)],
            catalog = db', stored = orders',
            started = length requestedItems, read_failures = []\<rparr>"
    unfolding out_def using committed by (intro CreateOrder_committed)
  with ok have r: "r = Inr order" by simp
  note created = repo_CreateOrder_created [OF committed(7) [unfolded r]]
  have inv: "fan_inv env db userID requestedItems ?s" by (rule fanout_joined(1))
  have "TotalAmount order = totalAmount ?s" using created(1) by simp
  also have "\<dots> = line_total env (processedItems ?s)" using inv by (simp add: fan_inv_def)
  also have "\<dots> = line_total env (Items order)" using created(2) [of env] by simp
  finally have 1: "TotalAmount order = line_total env (Items order)" .
  have "list_all (priced db) (processedItems ?s)" using inv by (simp add: fan_inv_def)
  then have 2: "list_all (priced db) (Items order)" using created(4) [of db] by simp
  have "mset (map line (processedItems ?s))
          = mset (map line (map (answered env) requestedItems))"
    using committed(5) by (rule fanout_no_error(1))
  then have 3: "mset (map line (Items order))
                  = mset (map line (map (answered env) requestedItems))"
    using created(3) by simp
  have 4: "UserID order = userID" "Status order = StatusPending"
    using created(5,6) by (simp_all add: StatusPending_def)
  have 5: "stored out = orders @ [order]" using created(7) by (simp add: o)
  from 1 2 3 4 5 show ?thesis by simp
qed

theorem total_is_sum_of_lines_witness:
  "\<exists>order. result (CreateOrder example_env example_db [] ''alice''
                     [requested ''P1'' 2, requested ''P2'' 1]) = Inr order
     \<and> TotalAmount order = 25
     \<and> TotalAmount order = line_total example_env (Items order)
     \<and> list_all (priced example_db) (Items order)
     \<and> Status order = StatusPending"
proof -
  have r: "result (CreateOrder example_env example_db [] ''alice''
                     [requested ''P1'' 2, requested ''P2'' 1])
     = Inr \<lparr>ID = ''id'', UserID = ''alice'',
            Items = [\<lparr>ItemID = ''id'', ItemOrderID = ''id'', ProductID = ''P1'', Quantity = 2,
                      PriceAtPurchase = 10, ItemCreatedAt = 1005\<rparr>,
                     \<lparr>ItemID = ''id'', ItemOrderID = ''id'', ProductID = ''P2'', Quantity = 1,
                      PriceAtPurchase = 5, ItemCreatedAt = 1005\<rparr>],
            TotalAmount = 25, Status = ''PENDING'', OrderCreatedAt = 1005,
            OrderUpdatedAt = 1005\<rparr>"
    by code_simp
  from total_is_sum_of_lines [OF r] r show ?thesis by simp
qed

lemma commit_commits_for:
  assumes c: "commit env xs db tr = (r, db', tr')" and d: "distinct (map fst xs)"
    and none: "commits_for pid tr = []"
  shows "commits_for pid tr' = [] \<or> (\<exists>d. map_of xs pid = Some d \<and> commits_for pid tr' = [d])"
    and "r = None \<Longrightarrow> commits_for pid tr' = (case map_of xs pid of None \<Rightarrow> [] | Some d \<Rightarrow> [d])"
proof -
  from commit_spec [OF c] obtain n where n: "n \<le> length xs"
    and tr': "tr' = tr @ map ok_call (take n xs)
                  @ (case r of None \<Rightarrow> [] | Some e \<Rightarrow> [failed_call (xs ! n)])"
    and r: "(case r of None \<Rightarrow> n = length xs | Some e \<Rightarrow> n < length xs
              \<and> (\<exists>err. e = ErrProductStockUpdateFailed (fst (xs ! n)) err))"
    by blast
  have key: "commits_for pid tr' = map snd (filter (\<lambda>kv. fst kv = pid)
               (take (case r of None \<Rightarrow> n | Some e \<Rightarrow> Suc n) xs))"
  proof (cases r)
    case None
    then show ?thesis
      using none by (simp add: tr' commits_for_append commits_for_ok_calls)
  next
    case (Some e)
    with r have "n < length xs" by simp
    then have "take (Suc n) xs = take n xs @ [xs ! n]"
      by (rule take_Suc_conv_app_nth)
    moreover have "commits_for pid [failed_call (xs ! n)]
                     = map snd (filter (\<lambda>kv. fst kv = pid) [xs ! n])"
      by (simp add: failed_call_def)
    ultimately show ?thesis
      using none Some by (simp add: tr' commits_for_append commits_for_ok_calls)
  qed
  show "commits_for pid tr' = [] \<or> (\<exists>d. map_of xs pid = Some d \<and> commits_for pid tr' = [d])"
    unfolding key using d by (rule distinct_keys_prefix)
  show "r = None \<Longrightarrow> commits_for pid tr' = (case map_of xs pid of None \<Rightarrow> [] | Some d \<Rightarrow> [d])"
    unfolding key using d r by (simp add: distinct_keys_lookup)
qed

lemma sint_sum_list:
  fixes ws :: "int32 list"
  shows "sum_list ws = word_of_int (sum_list (map sint ws))"
  by (induction ws) simp_all

lemma delta_for_no_overflow:
  assumes "(\<Sum>item\<leftarrow>filter (\<lambda>item. ProductID item = k) items. sint (Quantity item)) \<le> 2 ^ 31"
    and "- (2 ^ 31) < (\<Sum>item\<leftarrow>filter (\<lambda>item. ProductID item = k) items. sint (Quantity item))"
  shows "sint (delta_for k items)
           = - (\<Sum>item\<leftarrow>filter (\<lambda>item. ProductID item = k) items. sint (Quantity item))"
proof -
  let ?n = "\<Sum>item\<leftarrow>filter (\<lambda>item. ProductID item = k) items. sint (Quantity item)"
  have e: "delta_for k items = word_of_int (- ?n)"
    by (simp add: delta_for_def sint_sum_list [of "map Quantity _"] comp_def)
  have "sint (word_of_int (- ?n) :: int32) = signed_take_bit (LENGTH(32) - 1) (- ?n)"
    by (rule sint_sbintrunc')
  then have "sint (delta_for k items) = signed_take_bit 31 (- ?n)"
    by (simp only: e) simp
  also have "\<dots> = - ?n"
    using assms by (simp add: signed_take_bit_int_eq_self)
  finally show ?thesis .
qed

lemma planned_updates:
  fixes env :: "'p::{zero,plus,times} env"
  assumes "firstError (joined env db userID requestedItems) = None"
  defines "xs \<equiv> map_range (range_order env)
                  (productStockUpdates (joined env db userID requestedItems))"
  shows "distinct (map fst xs)"
    and "map_of xs pid = (if pid \<in> ProductID ` set (map (answered env) requestedItems)
                          then Some (delta_for pid (map (answered env) requestedItems))
                          else None)"
proof -
  have inv: "fan_inv env db userID requestedItems (joined env db userID requestedItems)"
    by (rule fanout_joined(1))
  then have d: "distinct (map fst (productStockUpdates (joined env db userID requestedItems)))"
    by (simp add: fan_inv_def)
  show "distinct (map fst xs)"
    unfolding xs_def using d by (rule map_range_keys(1))
  have "map_of xs pid = map_of (productStockUpdates (joined env db userID requestedItems)) pid"
    unfolding xs_def using d by (simp add: map_range_keys(2))
  then show "map_of xs pid = (if pid \<in> ProductID ` set (map (answered env) requestedItems)
                          then Some (delta_for pid (map (answered env) requestedItems))
                          else None)"
    using fanout_no_error(5) [OF assms(1)] by simp
qed

lemma not_repository_error:
  "is_InvalidOrderData e \<Longrightarrow> e \<noteq> ErrRepository st"
  "is_read_error e \<Longrightarrow> e \<noteq> ErrRepository st"
  by auto

lemma joined_first_error:
  fixes env :: "'p::{zero,plus,times} env"
  assumes "firstError (joined env db userID requestedItems) = Some e"
  shows "read_failure env db requestedItems e"
proof -
  have inv: "fan_inv env db userID requestedItems (joined env db userID requestedItems)"
    by (rule fanout_joined(1))
  from fan_inv_failed [OF inv] assms show ?thesis
    by (cases "failed (joined env db userID requestedItems)") simp_all
qed

lemma good_item_names:
  "good_item env db item \<Longrightarrow>
     names_product env key item \<longleftrightarrow> ProductID (answered env item) = key"
  by (auto simp: good_item_def names_product_def answered_def catalog_id_def
           split: option.splits)

lemma answered_lines:
  fixes its :: "'p OrderItem list"
  assumes "list_all (good_item env db) its"
  shows "filter (\<lambda>item. ProductID item = key) (map (answered env) its)
           = map (answered env) (filter (names_product env key) its)"
    and "key \<in> ProductID ` set (map (answered env) its)
           \<longleftrightarrow> list_ex (names_product env key) its"
proof -
  have n: "names_product env key item \<longleftrightarrow> ProductID (answered env item) = key"
    if "item \<in> set its" for item
    using assms that by (intro good_item_names [of env db]) (simp add: list_all_iff)
  then have "filter (names_product env key) its
               = filter (\<lambda>item. ProductID (answered env item) = key) its"
    by (intro filter_cong) simp_all
  then show "filter (\<lambda>item. ProductID item = key) (map (answered env) its)
           = map (answered env) (filter (names_product env key) its)"
    by (simp add: filter_map comp_def)
  show "key \<in> ProductID ` set (map (answered env) its)
           \<longleftrightarrow> list_ex (names_product env key) its"
    using n by (auto simp: list_ex_iff)
qed

lemma planned_delta:
  fixes its :: "'p OrderItem list"
  assumes good: "list_all (good_item env db) its"
    and pos: "list_all (\<lambda>item. 0 < sint (Quantity item)) its"
    and fits: "requested_quantity env key its \<le> 2 ^ 31"
  shows "sint (delta_for key (map (answered env) its)) = - requested_quantity env key its"
proof -
  have q: "(\<Sum>item\<leftarrow>filter (\<lambda>item. ProductID item = key) (map (answered env) its).
              sint (Quantity item)) = requested_quantity env key its"
    unfolding answered_lines(1) [OF good]
    by (simp add: requested_quantity_def comp_def answered_def)
  have "0 \<le> requested_quantity env key its"
    unfolding requested_quantity_def using pos
    by (intro sum_list_nonneg) (auto simp: list_all_iff)
  then have low: "- (2 ^ 31) < requested_quantity env key its"
    by simp
  show ?thesis
    using delta_for_no_overflow [of key "map (answered env) its"] fits low
    unfolding q by simp
qed

text \<open>
  Claim C3, as amended.  In every call, each product receives at most one stock-commit
  call, issued under the key by which the product service answered the product.  A
  product that receives one is named by an item of the request, and the call's
  quantity change is the negated sum of the quantities of the requested items that name
  the product, in whatever spelling of its identifier, as long as that sum is at most
  \<open>2 ^ 31\<close>.  When no commit fails (the call returns the order, or fails only in the
  store), the product of every requested item receives exactly one such call.
\<close>

theorem one_commit_per_product:
  fixes env :: "'p::{zero,plus,times} env" and db orders userID requestedItems
  defines "out \<equiv> CreateOrder env db orders userID requestedItems"
  shows "(\<forall>key. commits_for key (trace out) = []
             \<or> (\<exists>d. commits_for key (trace out) = [d]
                   \<and> list_ex (names_product env key) requestedItems
                   \<and> (requested_quantity env key requestedItems \<le> 2 ^ 31
                        \<longrightarrow> sint d = - requested_quantity env key requestedItems)))
       \<and> ((\<exists>order. result out = Inr order) \<or> (\<exists>st. result out = Inl (ErrRepository st))
            \<longrightarrow> (\<forall>item\<in>set requestedItems.
                   \<exists>key d. names_product env key item \<and> commits_for key (trace out) = [d]))"
proof -
  let ?its = "map (answered env) requestedItems"
  have reads_only: "commits_for key (trace out) = []
      \<and> (\<forall>order. result out \<noteq> Inr order) \<and> (\<forall>st. result out \<noteq> Inl (ErrRepository st))"
    if "\<exists>e s. fan_inv env db userID (fst (launch requestedItems)) s
           \<and> out = \<lparr>result = Inl e, trace = calls s, catalog = db, stored = orders,
                     started = length (fst (launch requestedItems)), read_failures = failed s\<rparr>
           \<and> (is_InvalidOrderData e \<or> is_read_error e)" for key
    using that fan_inv_calls(4) not_repository_error by fastforce
  have planned: "\<exists>d. commits_for key tr = [d]
                   \<and> list_ex (names_product env key) requestedItems
                   \<and> (requested_quantity env key requestedItems \<le> 2 ^ 31
                        \<longrightarrow> sint d = - requested_quantity env key requestedItems)"
    if l: "snd (launch requestedItems) = None"
      and none: "firstError (joined env db userID requestedItems) = None"
      and c: "commits_for key tr = [delta_for key ?its]"
      and k: "key \<in> ProductID ` set ?its" for key tr
  proof -
    have good: "list_all (good_item env db) requestedItems"
      using none by (rule fanout_no_error(3))
    have pos: "list_all (\<lambda>item. 0 < sint (Quantity item)) requestedItems"
      using launch_None [OF l] by simp
    have "list_ex (names_product env key) requestedItems"
      using k answered_lines(2) [OF good] by simp
    moreover have "sint (delta_for key ?its) = - requested_quantity env key requestedItems"
      if "requested_quantity env key requestedItems \<le> 2 ^ 31"
      using good pos that by (rule planned_delta)
    ultimately show ?thesis using c by simp
  qed
  show ?thesis
  proof (cases rule: CreateOrder_cases [where userID = userID
      and requestedItems = requestedItems and env = env and db = db and orders = orders])
    case invalid
    then show ?thesis by (simp add: out_def CreateOrder_invalid)
  next
    case (user_failed err)
    then show ?thesis by (simp add: out_def CreateOrder_user_failed)
  next
    case (early_return e)
    have "\<exists>e s. fan_inv env db userID (fst (launch requestedItems)) s
           \<and> out = \<lparr>result = Inl e, trace = calls s, catalog = db, stored = orders,
                     started = length (fst (launch requestedItems)), read_failures = failed s\<rparr>
           \<and> (is_InvalidOrderData e \<or> is_read_error e)"
      using early_return launch_Some [OF early_return(4)]
        early_return_state [of env db userID requestedItems]
      by (intro exI [of _ e] exI [of _ "run env db (schedule env)
                (fanout_init userID (fst (launch requestedItems)))"])
         (simp add: out_def CreateOrder_early_return)
    from reads_only [OF this] show ?thesis by simp
  next
    case (read_failed e)
    have "\<exists>e s. fan_inv env db userID (fst (launch requestedItems)) s
           \<and> out = \<lparr>result = Inl e, trace = calls s, catalog = db, stored = orders,
                     started = length (fst (launch requestedItems)), read_failures = failed s\<rparr>
           \<and> (is_InvalidOrderData e \<or> is_read_error e)"
      using read_failed launch_None [OF read_failed(4)]
        fanout_joined(1) [of env db userID requestedItems "schedule env"]
        read_failure_kind [OF joined_first_error [OF read_failed(5)]]
      by (intro exI [of _ e] exI [of _ "joined env db userID requestedItems"])
         (simp add: out_def CreateOrder_read_failed)
    from reads_only [OF this] show ?thesis by simp
  next
    case (commit_failed e db' tr)
    note p = planned_updates [OF commit_failed(5)]
    have none: "commits_for key (calls (joined env db userID requestedItems)) = []" for key
      by (rule fan_inv_calls(4) [OF fanout_joined(1)])
    have "commits_for key tr = []
             \<or> (key \<in> ProductID ` set ?its \<and> commits_for key tr = [delta_for key ?its])" for key
      using commit_commits_for(1) [OF commit_failed(6) p(1) none, of key] p(2) [of key]
      by (auto split: if_splits)
    then have "commits_for key tr = []
             \<or> (\<exists>d. commits_for key tr = [d]
                   \<and> list_ex (names_product env key) requestedItems
                   \<and> (requested_quantity env key requestedItems \<le> 2 ^ 31
                        \<longrightarrow> sint d = - requested_quantity env key requestedItems))" for key
      using planned [OF commit_failed(4,5), of key tr] by blast
    moreover obtain k err where "e = ErrProductStockUpdateFailed k err"
      using commit_spec [OF commit_failed(6)] by auto
    ultimately show ?thesis
      using commit_failed by (simp add: out_def CreateOrder_commit_failed)
  next
    case (committed db' tr r orders')
    note p = planned_updates [OF committed(5)]
    have good: "list_all (good_item env db) requestedItems"
      using committed(5) by (rule fanout_no_error(3))
    have none: "commits_for key (calls (joined env db userID requestedItems)) = []" for key
      by (rule fan_inv_calls(4) [OF fanout_joined(1)])
    have "commits_for key tr = (if key \<in> ProductID ` set ?its
                                 then [delta_for key ?its] else [])" for key
      using commit_commits_for(2) [OF committed(6) p(1) none, of key] p(2) [of key]
      by simp
    then have all: "commits_for key (tr @ [(RepoCreateOrderCall, \<not> isl r)])
                 = (if key \<in> ProductID ` set ?its then [delta_for key ?its] else [])" for key
      by (simp add: commits_for_append)
    have 1: "commits_for key (tr @ [(RepoCreateOrderCall, \<not> isl r)]) = []
             \<or> (\<exists>d. commits_for key (tr @ [(RepoCreateOrderCall, \<not> isl r)]) = [d]
                   \<and> list_ex (names_product env key) requestedItems
                   \<and> (requested_quantity env key requestedItems \<le> 2 ^ 31
                        \<longrightarrow> sint d = - requested_quantity env key requestedItems))" for key
      using planned [OF committed(4,5), of key "tr @ [(RepoCreateOrderCall, \<not> isl r)]"]
        all [of key]
      by (cases "key \<in> ProductID ` set ?its") simp_all
    have 2: "\<exists>key d. names_product env key item
               \<and> commits_for key (tr @ [(RepoCreateOrderCall, \<not> isl r)]) = [d]"
      if "item \<in> set requestedItems" for item
    proof -
      let ?key = "ProductID (answered env item)"
      have "good_item env db item"
        using good that by (simp add: list_all_iff)
      then have "names_product env ?key item"
        by (simp add: good_item_names)
      moreover have "?key \<in> ProductID ` set ?its"
        using that by simp
      then have "commits_for ?key (tr @ [(RepoCreateOrderCall, \<not> isl r)])
                   = [delta_for ?key ?its]"
        using all [of ?key] by simp
      ultimately show ?thesis by blast
    qed
    show ?thesis
      using committed 1 2 by (simp add: out_def CreateOrder_committed)
  qed
qed

theorem one_commit_per_product_witness:
  "(\<exists>order. result (CreateOrder example_env example_db [] ''alice''
               [requested ''P1'' 1, requested ''P2'' 1, requested ''P1'' 2]) = Inr order)
   \<and> requested_quantity example_env ''P1''
        [requested ''P1'' 1, requested ''P2'' 1, requested ''P1'' 2 :: int OrderItem] = 3
   \<and> (\<exists>d. commits_for ''P1'' (trace (CreateOrder example_env example_db [] ''alice''
               [requested ''P1'' 1, requested ''P2'' 1, requested ''P1'' 2])) = [d]
         \<and> sint d = - 3)"
proof -
  let ?items = "[requested ''P1'' 1, requested ''P2'' 1, requested ''P1'' 2 :: int OrderItem]"
  let ?out = "CreateOrder example_env example_db [] ''alice'' ?items"
  have "result ?out
     = Inr \<lparr>ID = ''id'', UserID = ''alice'',
            Items = [\<lparr>ItemID = ''id'', ItemOrderID = ''id'', ProductID = ''P1'', Quantity = 1,
                      PriceAtPurchase = 10, ItemCreatedAt = 1006\<rparr>,
                     \<lparr>ItemID = ''id'', ItemOrderID = ''id'', ProductID = ''P2'', Quantity = 1,
                      PriceAtPurchase = 5, ItemCreatedAt = 1006\<rparr>,
                     \<lparr>ItemID = ''id'', ItemOrderID = ''id'', ProductID = ''P1'', Quantity = 2,
                      PriceAtPurchase = 10, ItemCreatedAt = 1006\<rparr>],
            TotalAmount = 35, Status = ''PENDING'', OrderCreatedAt = 1006,
            OrderUpdatedAt = 1006\<rparr>"
    by code_simp
  then have r: "\<exists>order. result ?out = Inr order"
    by blast
  have q: "requested_quantity example_env ''P1'' ?items = 3"
    by (simp add: requested_quantity_def names_product_def example_env_def requested_def)
  have n: "names_product example_env key (requested ''P1'' 1 :: int OrderItem) \<longleftrightarrow> key = ''P1''"
    for key
    by (auto simp: names_product_def example_env_def requested_def)
  note t = one_commit_per_product [of example_env example_db "[]" "''alice''" ?items]
  from t r have "\<exists>key d. names_product example_env key (requested ''P1'' 1 :: int OrderItem)
                   \<and> commits_for key (trace ?out) = [d]"
    by simp
  then obtain d where d: "commits_for ''P1'' (trace ?out) = [d]"
    unfolding n by blast
  from t d q have "sint d = - 3"
    by (auto dest!: spec [of _ "''P1''"])
  with r q d show ?thesis by blast
qed

text \<open>
  Against claim C3 as stated: the database reads the identifier \<^verbatim>\<open>p1\<close> as the key \<^verbatim>\<open>P1\<close>,
  and the request has one item for \<^verbatim>\<open>P2\<close>, one for \<^verbatim>\<open>p1\<close> and one for \<^verbatim>\<open>P1\<close>.  The call
  reaches the commit phase and the map is visited with \<^verbatim>\<open>P1\<close> first.  The one
  stock-commit call is issued under \<^verbatim>\<open>P1\<close> with the change -6, the quantities of both
  spellings: the identifier \<^verbatim>\<open>p1\<close> of the request receives no call, and the call for \<^verbatim>\<open>P1\<close>
  does not carry the -3 of the items that bear that identifier.  The call fails (6
  against a stock of 5) and the loop stops there, so the product \<^verbatim>\<open>P2\<close> of the request
  receives no stock-commit call.
\<close>

theorem failed_commit_skips_other_products:
  "result (CreateOrder respelling_env example_db [] ''alice''
             [requested ''P2'' 1, requested ''p1'' 3, requested ''P1'' 3])
     = Inl (ErrProductStockUpdateFailed ''P1'' (StatusError FailedPrecondition))
   \<and> filter is_UpdateStock
        (trace (CreateOrder respelling_env example_db [] ''alice''
             [requested ''P2'' 1, requested ''p1'' 3, requested ''P1'' 3]))
     = [(UpdateStockCall ''P1'' (- 6), False)]
   \<and> delta_for ''P1'' [requested ''P2'' 1, requested ''p1'' 3, requested ''P1'' 3 :: int OrderItem]
     = - 3
   \<and> commits_for ''p1''
        (trace (CreateOrder respelling_env example_db [] ''alice''
             [requested ''P2'' 1, requested ''p1'' 3, requested ''P1'' 3])) = []
   \<and> commits_for ''P2''
        (trace (CreateOrder respelling_env example_db [] ''alice''
             [requested ''P2'' 1, requested ''p1'' 3, requested ''P1'' 3])) = []"
  by code_simp

lemma failed_commit_not_in_reads:
  assumes "list_all (\<lambda>c. \<not> is_UpdateStock c \<and> \<not> is_RepoCreateOrder c) tr"
  shows "(UpdateStockCall pid d, False) \<notin> set tr"
  using assms by (auto simp: list_all_iff)

lemma applied_for_append:
  "applied_for u key (a @ b) = applied_for u key a @ applied_for u key b"
  by (induction u key a rule: applied_for.induct) simp_all

lemma applied_for_reads:
  "list_all (\<lambda>c. \<not> is_UpdateStock c \<and> \<not> is_RepoCreateOrder c) tr \<Longrightarrow> applied_for u key tr = []"
  by (induction u key tr rule: applied_for.induct) simp_all

lemma applied_for_ok_calls:
  "applied_for u key (map ok_call xs) = map snd (filter (\<lambda>kv. u (fst kv) = Some key) xs)"
  by (induction xs) (simp_all add: ok_call_def)

text \<open>
  Claim C4.  When a stock-commit call fails, it is the last call of the trace, so no
  stock-commit call (and no store call) follows it; every call before it succeeded; the
  call returns \<^verbatim>\<open>ErrProductStockUpdateFailed\<close> for that product; no order is stored; and
  the stock of every product after the call is its stock before plus the quantity
  changes of the commit calls for it that succeeded: what was committed stays
  committed, and nothing was issued to undo it.
\<close>

theorem commit_fails_fast:
  fixes env :: "'p::{zero,plus,times} env" and db orders userID requestedItems
  defines "out \<equiv> CreateOrder env db orders userID requestedItems"
  assumes failed: "(UpdateStockCall pid d, False) \<in> set (trace out)"
  shows "\<exists>pre err. trace out = pre @ [(UpdateStockCall pid d, False)]
           \<and> list_all snd pre
           \<and> result out = Inl (ErrProductStockUpdateFailed pid err)
           \<and> stored out = orders
           \<and> (\<forall>p. stock_of (catalog out) p
                  = map_option (\<lambda>s. s + sum_list (applied_for (product_uuid env) p (trace out)))
                      (stock_of db p))"
proof (cases rule: CreateOrder_cases [where userID = userID
      and requestedItems = requestedItems and env = env and db = db and orders = orders])
  case invalid
  with failed show ?thesis by (simp add: out_def CreateOrder_invalid)
next
  case (user_failed err)
  with failed show ?thesis by (simp add: out_def CreateOrder_user_failed)
next
  case (early_return e)
  have inv: "fan_inv env db userID (fst (launch requestedItems))
               (run env db (schedule env) (fanout_init userID (fst (launch requestedItems))))"
    by (rule early_return_state)
  have "(UpdateStockCall pid d, False) \<notin> set (calls (run env db (schedule env)
            (fanout_init userID (fst (launch requestedItems)))))"
    using fan_inv_calls(3) [OF inv] by (rule failed_commit_not_in_reads)
  with failed early_return
  show ?thesis by (simp add: out_def CreateOrder_early_return)
next
  case (read_failed e)
  have inv: "fan_inv env db userID requestedItems (joined env db userID requestedItems)"
    by (rule fanout_joined(1))
  have "(UpdateStockCall pid d, False) \<notin> set (calls (joined env db userID requestedItems))"
    using fan_inv_calls(3) [OF inv] by (rule failed_commit_not_in_reads)
  with failed read_failed
  show ?thesis by (simp add: out_def CreateOrder_read_failed)
next
  case (commit_failed e db' tr)
  let ?s = "joined env db userID requestedItems"
  let ?xs = "map_range (range_order env) (productStockUpdates ?s)"
  have o: "out = \<lparr>result = Inl e, trace = tr, catalog = db', stored = orders,
            started = length requestedItems, read_failures = []\<rparr>"
    unfolding out_def using commit_failed by (intro CreateOrder_commit_failed)
  from commit_spec [OF commit_failed(6)] obtain n err where n: "n < length ?xs"
    and tr: "tr = calls ?s @ map ok_call (take n ?xs) @ [failed_call (?xs ! n)]"
    and e: "e = ErrProductStockUpdateFailed (fst (?xs ! n)) err"
    and st: "\<And>p. stock_of db' p =
             map_option (\<lambda>s. s + sum_list (map snd (filter (\<lambda>kv. product_uuid env (fst kv) = Some p)
                                                      (take n ?xs))))
               (stock_of db p)"
    by auto
  have inv: "fan_inv env db userID requestedItems ?s"
    by (rule fanout_joined(1))
  have reads: "list_all (\<lambda>c. \<not> is_UpdateStock c \<and> \<not> is_RepoCreateOrder c) (calls ?s)"
    by (rule fan_inv_calls(3) [OF inv])
  have ok: "list_all snd (calls ?s)"
    using commit_failed(5) by (rule fanout_no_error(4))
  have "(UpdateStockCall pid d, False) \<notin> set (calls ?s)"
    using reads by (rule failed_commit_not_in_reads)
  moreover have "(UpdateStockCall pid d, False) \<notin> set (map ok_call (take n ?xs))"
    by (auto simp: ok_call_def)
  ultimately have last: "failed_call (?xs ! n) = (UpdateStockCall pid d, False)"
    using failed by (simp add: o tr)
  then have pid: "fst (?xs ! n) = pid" by (simp add: failed_call_def)
  have ap: "applied_for (product_uuid env) p tr
              = map snd (filter (\<lambda>kv. product_uuid env (fst kv) = Some p) (take n ?xs))" for p
    using applied_for_reads [OF reads]
    by (simp add: tr applied_for_append applied_for_ok_calls failed_call_def)
  show ?thesis
    apply (rule exI [of _ "calls ?s @ map ok_call (take n ?xs)"])
    apply (rule exI [of _ err])
    using ok snd_ok_calls [of "take n ?xs"] last e pid st ap
    by (simp add: o tr)
next
  case (committed db' tr r orders')
  let ?s = "joined env db userID requestedItems"
  let ?xs = "map_range (range_order env) (productStockUpdates ?s)"
  from commit_spec [OF committed(6)] have tr: "tr = calls ?s @ map ok_call ?xs"
    by auto
  have inv: "fan_inv env db userID requestedItems ?s"
    by (rule fanout_joined(1))
  have reads: "list_all (\<lambda>c. \<not> is_UpdateStock c \<and> \<not> is_RepoCreateOrder c) (calls ?s)"
    by (rule fan_inv_calls(3) [OF inv])
  have "(UpdateStockCall pid d, False) \<notin> set (calls ?s)"
    using reads by (rule failed_commit_not_in_reads)
  moreover have "(UpdateStockCall pid d, False) \<notin> set (map ok_call ?xs)"
    by (auto simp: ok_call_def)
  ultimately show ?thesis
    using failed committed by (simp add: out_def CreateOrder_committed tr)
qed

theorem commit_fails_fast_witness:
  "(UpdateStockCall ''P1'' (- 6), False)
     \<in> set (trace (CreateOrder example_env example_db [] ''alice''
                     [requested ''P2'' 1, requested ''P1'' 3, requested ''P1'' 3]))
   \<and> (\<exists>pre err.
         trace (CreateOrder example_env example_db [] ''alice''
                  [requested ''P2'' 1, requested ''P1'' 3, requested ''P1'' 3])
           = pre @ [(UpdateStockCall ''P1'' (- 6), False)]
       \<and> list_all snd pre
       \<and> result (CreateOrder example_env example_db [] ''alice''
                  [requested ''P2'' 1, requested ''P1'' 3, requested ''P1'' 3])
           = Inl (ErrProductStockUpdateFailed ''P1'' err))
   \<and> stock_of example_db ''P2'' = Some 7
   \<and> stock_of (catalog (CreateOrder example_env example_db [] ''alice''
                  [requested ''P2'' 1, requested ''P1'' 3, requested ''P1'' 3])) ''P2'' = Some 6"
proof -
  let ?out = "CreateOrder example_env example_db [] ''alice''
                  [requested ''P2'' 1, requested ''P1'' 3, requested ''P1'' 3]"
  have t: "trace ?out
     = [(GetUserCall ''alice'', True), (GetProductCall ''P2'', True),
        (GetProductCall ''P1'', True), (GetProductCall ''P1'', True),
        (UpdateStockCall ''P2'' (- 1), True), (UpdateStockCall ''P1'' (- 6), False)]"
    by code_simp
  then have f: "(UpdateStockCall ''P1'' (- 6), False) \<in> set (trace ?out)"
    by simp
  have u: "product_uuid example_env = Some"
    by (simp add: example_env_def)
  have a: "applied_for (product_uuid example_env) ''P2'' (trace ?out) = [- 1]"
    unfolding t u by simp
  have s: "stock_of example_db ''P2'' = Some 7"
    by (simp add: stock_of_def example_db_def example_row_def)
  from commit_fails_fast [OF f] obtain pre err where
    p: "trace ?out = pre @ [(UpdateStockCall ''P1'' (- 6), False)]" "list_all snd pre"
       "result ?out = Inl (ErrProductStockUpdateFailed ''P1'' err)"
    and st: "\<And>p. stock_of (catalog ?out) p
                  = map_option (\<lambda>s. s + sum_list (applied_for (product_uuid example_env) p
                                                    (trace ?out)))
                      (stock_of example_db p)"
    by blast
  have "stock_of (catalog ?out) ''P2'' = Some 6"
    using st [of "''P2''"] a s by simp
  with f p s show ?thesis by blast
qed

lemma single_entry:
  assumes "distinct (map fst xs)" and "\<And>k'. map_of xs k' = (if k' = k then Some v else None)"
  shows "xs = [(k, v)]"
proof -
  have m: "map_of xs = map_of [(k, v)]"
    using assms(2) by (intro ext) simp
  have "distinct (map fst [(k, v)])" by simp
  from iffD1 [OF map_of_inject_set [OF assms(1) this] m]
  have s: "set xs = {(k, v)}" by simp
  have d: "distinct xs" using assms(1) by (simp add: distinct_map)
  then have "length xs = card (set xs)" by (simp add: distinct_card)
  with s have "length xs = 1" by simp
  then obtain x where "xs = [x]" by (cases xs) auto
  with s show ?thesis by simp
qed

text \<open>
  Claim C9.  The read phase compares every requested line with the stock on its own.
  Two lines of 3 for a product with a stock of 5 pass it under every interleaving of
  the goroutines and every order of the map: no read failure is recorded, and the call
  reaches the commit phase, where the one stock-commit call for the product, with the
  summed change -6, is refused by the non-negativity check of \<^verbatim>\<open>UpdateStock\<close>
  (\<^verbatim>\<open>FailedPrecondition\<close>) and the call fails with \<^verbatim>\<open>ErrProductStockUpdateFailed\<close>; the
  product table is unchanged.
\<close>

theorem duplicate_lines_pass_read_check:
  fixes sched :: "nat list" and order :: "string list"
  defines "out \<equiv> CreateOrder (example_env\<lparr>schedule := sched, range_order := order\<rparr>)
                   example_db [] ''alice'' [requested ''P1'' 3, requested ''P1'' 3]"
  shows "read_failures out = []
       \<and> result out = Inl (ErrProductStockUpdateFailed ''P1'' (StatusError FailedPrecondition))
       \<and> filter is_UpdateStock (trace out) = [(UpdateStockCall ''P1'' (- 6), False)]
       \<and> catalog out = example_db \<and> stored out = []"
proof -
  let ?env = "example_env\<lparr>schedule := sched, range_order := order\<rparr>"
  let ?items = "[requested ''P1'' 3, requested ''P1'' 3 :: int OrderItem]"
  let ?s = "joined ?env example_db ''alice'' ?items"
  let ?xs = "map_range (range_order ?env) (productStockUpdates ?s)"
  have env: "GetUser ?env ''alice'' = None" "rpc_fault ?env = (\<lambda>n. None)"
    "db_fault ?env = (\<lambda>n. None)" "product_uuid ?env = Some"
    by (simp_all add: example_env_def)
  have l: "snd (launch ?items) = None"
    by (simp add: requested_def)
  have get: "client_GetProduct ?env n example_db ''P1''
               = Inr (scan ''P1'' (example_row 10 5))" for n
    by (simp add: client_GetProduct_def env Service_GetProductByID_def GetProductByID_def
          example_db_def)
  have no_failure: "\<not> read_failure ?env example_db ?items e" for e
    by (auto simp: read_failure_def get requested_def scan_def example_row_def)
  have none: "firstError ?s = None"
  proof (cases "firstError ?s")
    case (Some e)
    from joined_first_error [OF this] no_failure show ?thesis by blast
  qed simp
  have a: "map (answered ?env) ?items = ?items"
    by (simp add: answered_def catalog_id_def env requested_def)
  have d: "delta_for k ?items = (if k = ''P1'' then - 6 else 0)" for k
    by (simp add: delta_for_def requested_def)
  have ids: "ProductID ` set ?items = {''P1''}"
    by (simp add: requested_def)
  have "?xs = [(''P1'', - 6)]"
  proof (rule single_entry)
    show "distinct (map fst ?xs)" by (rule planned_updates(1) [OF none])
    show "map_of ?xs k' = (if k' = ''P1'' then Some (- 6) else None)" for k'
      using planned_updates(2) [OF none, of k'] by (simp only: a ids d) simp
  qed
  then have c: "commit ?env ?xs example_db (calls ?s)
      = (Some (ErrProductStockUpdateFailed ''P1'' (StatusError FailedPrecondition)), example_db,
         calls ?s @ [(UpdateStockCall ''P1'' (- 6), False)])"
    by (simp add: client_UpdateStock_def env Service_UpdateStock_def UpdateStock_def Let_def
          example_db_def example_row_def)
  have o: "out = \<lparr>result = Inl (ErrProductStockUpdateFailed ''P1'' (StatusError FailedPrecondition)),
            trace = calls ?s @ [(UpdateStockCall ''P1'' (- 6), False)],
            catalog = example_db, stored = [],
            started = length ?items, read_failures = []\<rparr>"
    unfolding out_def using env(1) l none c
    by (intro CreateOrder_commit_failed) simp_all
  have inv: "fan_inv ?env example_db ''alice'' ?items ?s"
    by (rule fanout_joined(1))
  have "list_all (\<lambda>c. \<not> is_UpdateStock c) (calls ?s)"
    using fan_inv_calls(3) [OF inv] by (simp add: list_all_iff)
  then have "filter is_UpdateStock (calls ?s) = []"
    by (simp add: list_all_iff filter_empty_conv)
  then show ?thesis by (simp add: o)
qed

section \<open>The stock adjustment of the product repository\<close>

lemma sint_add_no_overflow:
  fixes a b :: int32
  assumes "- (2 ^ 31) \<le> sint a + sint b" and "sint a + sint b < 2 ^ 31"
  shows "sint (a + b) = sint a + sint b"
  using assms by (simp add: sint_word_add signed_take_bit_int_eq_self)

text \<open>What \<^verbatim>\<open>UpdateStock\<close> does for every input: a failure of any kind leaves the table
  as it was; for a product that is in the table, once the transaction has started and
  the row is read, the call fails with \<^verbatim>\<open>ErrInsufficientStock\<close> exactly when the sum it
  computes at line 172 is negative; and on success the new stock, both returned and
  stored, is that sum, no other row being touched.  The sum is the \<^verbatim>\<open>int32\<close> sum, which
  is the sum of the two signed values as long as that fits \<^verbatim>\<open>int32\<close>.\<close>

lemma UpdateStock_failure:
  "fst (UpdateStock uuid_in fault now db productID delta) = Inl e \<Longrightarrow>
     snd (UpdateStock uuid_in fault now db productID delta) = db"
  by (auto simp: UpdateStock_def Let_def split: if_splits option.splits)

lemma UpdateStock_insufficient:
  assumes "uuid_in productID = Some key" and "db key = Some row"
    and "fault \<noteq> Some BeginTx" and "fault \<noteq> Some QueryRow"
  shows "fst (UpdateStock uuid_in fault now db productID delta) = Inl ErrInsufficientStock
           \<longleftrightarrow> sint (StockQuantity row + delta) < 0"
  using assms by (auto simp: UpdateStock_def Let_def)

lemma UpdateStock_success:
  assumes "uuid_in productID = Some key" and "db key = Some row"
    and "fst (UpdateStock uuid_in fault now db productID delta) = Inr p"
  shows "Id p = key" and "ProductStock p = StockQuantity row + delta"
    and "0 \<le> sint (StockQuantity row + delta)"
    and "stock_of (snd (UpdateStock uuid_in fault now db productID delta)) key
           = Some (StockQuantity row + delta)"
    and "other \<noteq> key \<Longrightarrow> snd (UpdateStock uuid_in fault now db productID delta) other = db other"
  using assms by (auto simp: UpdateStock_def Let_def scan_def stock_of_def split: if_splits)

lemma UpdateStock_in_range:
  assumes "uuid_in productID = Some key" and "db key = Some row"
    and "fault \<noteq> Some BeginTx" and "fault \<noteq> Some QueryRow"
    and "- (2 ^ 31) \<le> sint (StockQuantity row) + sint delta"
    and "sint (StockQuantity row) + sint delta < 2 ^ 31"
  shows "fst (UpdateStock uuid_in fault now db productID delta) = Inl ErrInsufficientStock
           \<longleftrightarrow> sint (StockQuantity row) + sint delta < 0"
  using UpdateStock_insufficient [of uuid_in productID key db row fault now delta]
    assms(1-4) sint_add_no_overflow [OF assms(5,6)]
  by simp

text \<open>
  Claim C7.  The claim that \<^verbatim>\<open>UpdateStock\<close> fails with \<^verbatim>\<open>ErrInsufficientStock\<close> only when
  the stock plus the change is negative does not hold where that sum leaves \<^verbatim>\<open>int32\<close>.
  For a product with the stock 2147483647 and the change 1, the stock plus the change
  is 2147483648, which is not negative; \<^verbatim>\<open>newStock\<close> of line 172 wraps around to
  -2147483648, and the call, an increase of the stock, fails with
  \<^verbatim>\<open>ErrInsufficientStock\<close> and leaves the table as it was.
\<close>

theorem UpdateStock_increase_refused:
  "UpdateStock Some None 7 [''P1'' \<mapsto> example_row 10 2147483647] ''P1'' 1
     = (Inl ErrInsufficientStock, [''P1'' \<mapsto> example_row 10 2147483647])
   \<and> sint (StockQuantity (example_row 10 2147483647 :: int ProductRow)) + sint (1 :: int32)
     = 2147483648
   \<and> sint (StockQuantity (example_row 10 2147483647 :: int ProductRow) + 1)
     = - 2147483648"
  by (simp add: UpdateStock_def Let_def example_row_def)

section \<open>The pagination of \<^verbatim>\<open>ListUserOrders\<close>\<close>

lemma ListUserOrders_limit:
  "ListUserOrders (\<lambda>u limit offset. limit) userID page pageSize = Inr limit
     \<Longrightarrow> 1 \<le> sint limit \<and> sint limit \<le> 100"
  by (auto simp: ListUserOrders_def Let_def split: if_splits)

lemma ListUserOrders_offset:
  assumes small: "sint page \<le> 2 ^ 56"
    and q: "ListUserOrders (\<lambda>u limit offset. (limit, offset)) userID page pageSize
              = Inr (limit, offset)"
  shows "0 \<le> sint offset \<and> sint offset = (max 1 (sint page) - 1) * sint limit"
proof -
  define page1 :: go_int where "page1 = (if sint page \<le> 0 then 1 else page)"
  from q have limit: "1 \<le> sint limit" "sint limit \<le> 100"
    and offset: "offset = (page1 - 1) * limit"
    by (auto simp: ListUserOrders_def Let_def page1_def split: if_splits)
  have p1: "sint page1 = max 1 (sint page)"
    by (simp add: page1_def max_def)
  then have r1: "1 \<le> sint page1" "sint page1 \<le> 2 ^ 56"
    using small by simp_all
  have "sint (page1 - 1) = signed_take_bit 63 (sint page1 - 1)"
    by (simp add: sint_word_diff)
  also have "\<dots> = sint page1 - 1"
    using r1 by (simp add: signed_take_bit_int_eq_self)
  finally have d: "sint (page1 - 1) = sint page1 - 1" .
  have nonneg: "0 \<le> (sint page1 - 1) * sint limit"
    using r1 limit by simp
  have "(sint page1 - 1) * sint limit \<le> 2 ^ 56 * 100"
    using r1 limit by (intro mult_mono) simp_all
  then have up: "(sint page1 - 1) * sint limit < 2 ^ 63"
    by simp
  have "sint offset = signed_take_bit 63 (sint (page1 - 1) * sint limit)"
    by (simp add: offset sint_word_mult)
  also have "\<dots> = (sint page1 - 1) * sint limit"
    using nonneg up by (simp add: d signed_take_bit_int_eq_self)
  finally show ?thesis
    using nonneg by (simp add: p1)
qed

text \<open>
  Claim C10.  The limit passed to the store is always between 1 and 100
  (\<open>ListUserOrders_limit\<close>), and up to page \<open>2 ^ 56\<close> the offset is the product of the
  normalised page minus one and the limit, and not negative (\<open>ListUserOrders_offset\<close>).
  But the offset \<^verbatim>\<open>(page - 1) * pageSize\<close> is computed in Go's \<^verbatim>\<open>int\<close> and wraps around: for
  the largest page number and a page size of 10, the store is queried with the offset
  -20.
\<close>

theorem ListUserOrders_offset_overflow:
  "ListUserOrders (\<lambda>u limit offset. (u, sint limit, sint offset)) ''u1''
     9223372036854775807 10 = Inr (''u1'', 10, - 20)"
  by (simp add: ListUserOrders_def)

end
